theory Spec2Isabelle
  imports
    Main
    "HOL-Library.Word"
    "HOL-Library.Multiset"
    "HOL-Library.Sublist"
    "HOL-Library.AList"
begin

unbundle bit_operations_syntax

section \<open>The profile package (internal/profile/profile.go)\<close>

text \<open>
  Machine integers.  \<open>int64\<close> values that the program computes with (sample counts,
  durations, the scalar metadata of a profile) are 64-bit words, so that Go's wrap-around
  is the model's.  String-table handles (\<open>int64(len(StringTable))\<close>) and Function and
  Location ids (\<open>uint64(len(...) + 1)\<close>) are lengths of Go slices; a slice never holds
  more than \<open>2^63 - 1\<close> elements, so these conversions never wrap, and the handles and ids
  are natural numbers.  The encoder converts them to \<open>uint64\<close> where the source does.
\<close>

type_synonym int64 = "64 word"
type_synonym uint64 = "64 word"
type_synonym byte = "8 word"

record ValueType =
  vt_Type :: nat
  vt_Unit :: nat

record Sample =
  LocationId :: "nat list"
  Value :: "int64 list"

record Line =
  FunctionId :: nat
  line_Line :: int64

record Location =
  loc_Id :: nat
  loc_Line :: "Line list"

record Function =
  fn_Id :: nat
  fn_Name :: nat
  fn_SystemName :: nat
  fn_Filename :: nat

record Profile =
  SampleType :: "ValueType list"
  Sample :: "Sample list"
  Location :: "Location list"
  Function :: "Function list"
  StringTable :: "string list"
  TimeNanos :: int64
  DurationNanos :: int64
  PeriodType :: "ValueType option"
  Period :: int64

text \<open>
  The Builder: the profile under construction and the three index maps.  The mutex
  \<open>mu\<close> has no field of its own; what it guarantees (the read-locked and the
  write-locked sections run atomically) is how the operations below are cut.
\<close>

record Builder =
  profile :: Profile
  stringIndex :: "string \<rightharpoonup> nat"
  functionIndex :: "string \<rightharpoonup> nat"
  locationIndex :: "string \<rightharpoonup> nat"

definition NewBuilder :: Builder where
  "NewBuilder =
     \<lparr>profile = \<lparr>SampleType = [], Sample = [], Location = [], Function = [],
                  StringTable = [''''], TimeNanos = 0, DurationNanos = 0,
                  PeriodType = None, Period = 0\<rparr>,
      stringIndex = [[] \<mapsto> 0],
      functionIndex = Map.empty,
      locationIndex = Map.empty\<rparr>"

definition addStringLocked :: "Builder \<Rightarrow> string \<Rightarrow> nat \<times> Builder" where
  "addStringLocked pb s =
     (case stringIndex pb s of
        Some idx \<Rightarrow> (idx, pb)
      | None \<Rightarrow>
          (let idx = length (StringTable (profile pb)) in
           (idx, pb\<lparr>profile := (profile pb)\<lparr>StringTable := StringTable (profile pb) @ [s]\<rparr>,
                     stringIndex := (stringIndex pb)(s \<mapsto> idx)\<rparr>)))"

text \<open>
  \<open>AddString\<close>: the lookup under the read lock, and on a miss the section under the
  write lock, which looks the string up again before it appends.
\<close>

definition AddString_locked :: "Builder \<Rightarrow> string \<Rightarrow> nat \<times> Builder" where
  "AddString_locked pb s =
     (case stringIndex pb s of
        Some idx \<Rightarrow> (idx, pb)
      | None \<Rightarrow>
          (let idx = length (StringTable (profile pb)) in
           (idx, pb\<lparr>profile := (profile pb)\<lparr>StringTable := StringTable (profile pb) @ [s]\<rparr>,
                     stringIndex := (stringIndex pb)(s \<mapsto> idx)\<rparr>)))"

definition AddString :: "Builder \<Rightarrow> string \<Rightarrow> nat \<times> Builder" where
  "AddString pb s =
     (case stringIndex pb s of
        Some idx \<Rightarrow> (idx, pb)
      | None \<Rightarrow> AddString_locked pb s)"

text \<open>The key of a Function and of a Location: \<open>name + "\x00" + filename\<close>.\<close>

definition index_key :: "string \<Rightarrow> string \<Rightarrow> string" where
  "index_key name filename = name @ [CHR 0x00] @ filename"

text \<open>
  The Function literal of \<open>GetOrCreateFunction\<close> and \<open>GetOrCreateLocation\<close>: its three
  \<open>addStringLocked\<close> calls run in the order of the fields, then the Function is appended
  and indexed.
\<close>

definition createFunction :: "Builder \<Rightarrow> string \<Rightarrow> string \<Rightarrow> string \<Rightarrow> nat \<Rightarrow> Builder" where
  "createFunction pb key name filename fid =
     (let (n, pb1) = addStringLocked pb name;
          (sn, pb2) = addStringLocked pb1 name;
          (f, pb3) = addStringLocked pb2 filename;
          fn = \<lparr>fn_Id = fid, fn_Name = n, fn_SystemName = sn, fn_Filename = f\<rparr>
      in pb3\<lparr>profile := (profile pb3)\<lparr>Function := Function (profile pb3) @ [fn]\<rparr>,
              functionIndex := (functionIndex pb3)(key \<mapsto> fid)\<rparr>)"

definition GetOrCreateFunction_locked :: "Builder \<Rightarrow> string \<Rightarrow> string \<Rightarrow> nat \<times> Builder" where
  "GetOrCreateFunction_locked pb name filename =
     (let key = index_key name filename in
      case functionIndex pb key of
        Some fid \<Rightarrow> (fid, pb)
      | None \<Rightarrow>
          (let fid = length (Function (profile pb)) + 1
           in (fid, createFunction pb key name filename fid)))"

definition GetOrCreateFunction :: "Builder \<Rightarrow> string \<Rightarrow> string \<Rightarrow> nat \<times> Builder" where
  "GetOrCreateFunction pb name filename =
     (case functionIndex pb (index_key name filename) of
        Some fid \<Rightarrow> (fid, pb)
      | None \<Rightarrow> GetOrCreateFunction_locked pb name filename)"

text \<open>
  \<open>GetOrCreateLocation\<close>.  \<open>funcId := pb.functionIndex[key]\<close> reads 0 for a key that
  is not in the map, and the Function is created when \<open>funcId == 0\<close>.
\<close>

definition GetOrCreateLocation_locked :: "Builder \<Rightarrow> string \<Rightarrow> string \<Rightarrow> nat \<times> Builder" where
  "GetOrCreateLocation_locked pb name filename =
     (let key = index_key name filename in
      case locationIndex pb key of
        Some lid \<Rightarrow> (lid, pb)
      | None \<Rightarrow>
          (let funcId0 = (case functionIndex pb key of None \<Rightarrow> 0 | Some v \<Rightarrow> v);
               (funcId, pb1) =
                 (if funcId0 = 0
                  then (let fid = length (Function (profile pb)) + 1
                        in (fid, createFunction pb key name filename fid))
                  else (funcId0, pb));
               lid = length (Location (profile pb1)) + 1;
               loc = \<lparr>loc_Id = lid, loc_Line = [\<lparr>FunctionId = funcId, line_Line = 0\<rparr>]\<rparr>
           in (lid, pb1\<lparr>profile := (profile pb1)\<lparr>Location := Location (profile pb1) @ [loc]\<rparr>,
                        locationIndex := (locationIndex pb1)(key \<mapsto> lid)\<rparr>)))"

definition GetOrCreateLocation :: "Builder \<Rightarrow> string \<Rightarrow> string \<Rightarrow> nat \<times> Builder" where
  "GetOrCreateLocation pb name filename =
     (case locationIndex pb (index_key name filename) of
        Some lid \<Rightarrow> (lid, pb)
      | None \<Rightarrow> GetOrCreateLocation_locked pb name filename)"

fun SetSampleTypes :: "Builder \<Rightarrow> (string \<times> string) list \<Rightarrow> Builder" where
  "SetSampleTypes pb [] = pb"
| "SetSampleTypes pb ((t, u) # types) =
     (let (ti, pb1) = AddString pb t;
          (ui, pb2) = AddString pb1 u
      in SetSampleTypes
           (pb2\<lparr>profile := (profile pb2)\<lparr>SampleType :=
              SampleType (profile pb2) @ [\<lparr>vt_Type = ti, vt_Unit = ui\<rparr>]\<rparr>\<rparr>) types)"

definition SetPeriodType :: "Builder \<Rightarrow> string \<Rightarrow> string \<Rightarrow> Builder" where
  "SetPeriodType pb typeName unit =
     (let (ti, pb1) = AddString pb typeName;
          (ui, pb2) = AddString pb1 unit
      in pb2\<lparr>profile := (profile pb2)\<lparr>PeriodType := Some \<lparr>vt_Type = ti, vt_Unit = ui\<rparr>\<rparr>\<rparr>)"

definition Build :: "Builder \<Rightarrow> Profile" where
  "Build pb = profile pb"

text \<open>
  A build is a sequence of Builder calls.  Every call changes the Builder only inside
  its write-locked section, and that section looks the key up again, so a call whose
  read-locked lookup ran against an older state has the effect of the whole call run
  at the moment it takes the write lock: concurrent callers produce the Builder states
  of some sequence of calls.
\<close>

datatype builder_op =
    OpAddString string
  | OpGetOrCreateFunction string string
  | OpGetOrCreateLocation string string
  | OpSetSampleTypes "(string \<times> string) list"
  | OpSetPeriodType string string

fun apply_op :: "Builder \<Rightarrow> builder_op \<Rightarrow> Builder" where
  "apply_op pb (OpAddString s) = snd (AddString pb s)"
| "apply_op pb (OpGetOrCreateFunction n f) = snd (GetOrCreateFunction pb n f)"
| "apply_op pb (OpGetOrCreateLocation n f) = snd (GetOrCreateLocation pb n f)"
| "apply_op pb (OpSetSampleTypes types) = SetSampleTypes pb types"
| "apply_op pb (OpSetPeriodType t u) = SetPeriodType pb t u"

definition run_ops :: "Builder \<Rightarrow> builder_op list \<Rightarrow> Builder" where
  "run_ops pb ops = foldl apply_op pb ops"

subsection \<open>The encoder\<close>

text \<open>
  \<open>encodeVarint\<close>: the loop emits the low seven bits of \<open>v\<close> with the continuation
  bit while \<open>v >= 0x80\<close> and shifts \<open>v\<close> right by seven, then emits the last byte.
  \<open>encodeTag\<close> takes Go \<open>int\<close>s (64 bits); \<open>uint64(...)\<close> keeps their bits.
\<close>

function encodeVarint :: "uint64 \<Rightarrow> byte list" where
  "encodeVarint v =
     (if v \<ge> 0x80 then (ucast v OR 0x80) # encodeVarint (drop_bit 7 v) else [ucast v])"
  by pat_completeness auto
termination
proof (relation "measure unat")
  show "wf (measure unat)" by simp
next
  fix v :: uint64
  assume "0x80 \<le> v"
  then have "0 < unat v" by (simp add: word_le_nat_alt)
  then have "unat v div 2 ^ 7 < unat v" by (intro div_less_dividend) simp_all
  moreover have "unat (drop_bit 7 v) = drop_bit 7 (unat v)" by (rule unat_drop_bit_eq)
  moreover have "drop_bit 7 (unat v) = unat v div 2 ^ 7" by (rule drop_bit_eq_div)
  ultimately show "(drop_bit 7 v, v) \<in> measure unat" by simp
qed

declare encodeVarint.simps [simp del]

definition encodeTag :: "int64 \<Rightarrow> int64 \<Rightarrow> byte list" where
  "encodeTag fieldNum wireType = encodeVarint (push_bit 3 fieldNum OR wireType)"

text \<open>
  The encoders of the nested messages.  The handles and ids are converted with
  \<open>uint64(...)\<close>.  Each loop of the source appends the encodings of the elements in
  order.
\<close>

definition encodeValueType :: "ValueType \<Rightarrow> byte list" where
  "encodeValueType vt =
     encodeTag 1 0 @ encodeVarint (of_nat (vt_Type vt)) @
     encodeTag 2 0 @ encodeVarint (of_nat (vt_Unit vt))"

definition encodeSample :: "Sample \<Rightarrow> byte list" where
  "encodeSample s =
     (let buf = [];
          buf = (if length (LocationId s) > 0
                 then (let packed = concat (map (\<lambda>id. encodeVarint (of_nat id)) (LocationId s))
                       in buf @ encodeTag 1 2 @ encodeVarint (of_nat (length packed)) @ packed)
                 else buf);
          buf = (if length (Value s) > 0
                 then (let packed = concat (map encodeVarint (Value s))
                       in buf @ encodeTag 2 2 @ encodeVarint (of_nat (length packed)) @ packed)
                 else buf)
      in buf)"

definition encodeLine :: "Line \<Rightarrow> byte list" where
  "encodeLine line =
     (let buf = encodeTag 1 0 @ encodeVarint (of_nat (FunctionId line))
      in if line_Line line \<noteq> 0
         then buf @ encodeTag 2 0 @ encodeVarint (line_Line line)
         else buf)"

definition encodeLocation :: "Location \<Rightarrow> byte list" where
  "encodeLocation loc =
     encodeTag 1 0 @ encodeVarint (of_nat (loc_Id loc)) @
     concat (map (\<lambda>line. let msg = encodeLine line
                         in encodeTag 4 2 @ encodeVarint (of_nat (length msg)) @ msg)
                 (loc_Line loc))"

definition encodeFunction :: "Function \<Rightarrow> byte list" where
  "encodeFunction fn =
     encodeTag 1 0 @ encodeVarint (of_nat (fn_Id fn)) @
     encodeTag 2 0 @ encodeVarint (of_nat (fn_Name fn)) @
     encodeTag 3 0 @ encodeVarint (of_nat (fn_SystemName fn)) @
     encodeTag 4 0 @ encodeVarint (of_nat (fn_Filename fn))"

text \<open>
  \<open>Encode\<close>.  An embedded message or string is written as its tag, its length and its
  bytes; the source repeats the three appends at each place, \<open>embedded\<close> names them.
  A Go string is a sequence of bytes, and so is a \<open>string\<close> here.  The error result of
  \<open>Encode\<close> is always \<open>nil\<close> and is left out.
\<close>

definition embedded :: "int64 \<Rightarrow> byte list \<Rightarrow> byte list" where
  "embedded fieldNum msg = encodeTag fieldNum 2 @ encodeVarint (of_nat (length msg)) @ msg"

definition Encode :: "Profile \<Rightarrow> byte list" where
  "Encode p =
     (let buf = concat (map (\<lambda>st. embedded 1 (encodeValueType st)) (SampleType p));
          buf = buf @ concat (map (\<lambda>s. embedded 2 (encodeSample s)) (Sample p));
          buf = buf @ concat (map (\<lambda>loc. embedded 4 (encodeLocation loc)) (Location p));
          buf = buf @ concat (map (\<lambda>fn. embedded 5 (encodeFunction fn)) (Function p));
          buf = buf @ concat (map (\<lambda>s. embedded 6 (map of_char s)) (StringTable p));
          buf = (if TimeNanos p \<noteq> 0
                 then buf @ encodeTag 9 0 @ encodeVarint (TimeNanos p) else buf);
          buf = (if DurationNanos p \<noteq> 0
                 then buf @ encodeTag 10 0 @ encodeVarint (DurationNanos p) else buf);
          buf = (case PeriodType p of
                   Some vt \<Rightarrow> buf @ embedded 11 (encodeValueType vt)
                 | None \<Rightarrow> buf);
          buf = (if Period p \<noteq> 0
                 then buf @ encodeTag 12 0 @ encodeVarint (Period p) else buf)
      in buf)"

section \<open>The converter package (internal/converter)\<close>

subsection \<open>What the Go runtime and library contribute\<close>

text \<open>
  Timestamps and durations are \<open>float64\<close>.  The model leaves the type of floats open
  (the type variable \<open>'f\<close>): it uses their order (\<open><\<close>, \<open>\<le>\<close>), zero and addition, and
  takes the two operations that produce integers as parameters, so that every theorem
  holds whatever rounding they do.  The order is a linear one: the values come from a
  JSON document, which cannot hold a NaN.

  Three more things are decided outside the repository's code and are parameters too:
  the permutation \<open>sort.Slice\<close> leaves (Go documents it as a sort that need not be
  stable), the order in which the samples of the concurrent workers arrive on the
  \<open>results\<close> channel, and the order in which \<open>range\<close> visits the entries of
  \<open>sampleMap\<close>.
\<close>

type_synonym rune = "32 word"

record sampleData =
  sd_locationIds :: "nat list"
  sd_count :: int64
  sd_timeNs :: int64

record stackSample =
  ss_stack :: "string list"
  ss_names :: "string list"
  ss_cats :: "string list"
  ss_timeNs :: int64

text \<open>
  A value of type \<open>interface{}\<close> as \<open>getTid\<close> tells them apart.  A string is given
  by the runes that \<open>range\<close> yields.
\<close>

datatype 'f iface = IFloat64 'f | IInt int64 | IInt64 int64 | IString "rune list" | IOther

record 'f TraceEvent =
  Ph :: string
  Cat :: string
  Name :: string
  Pid :: "'f iface"
  Tid :: "'f iface"
  Ts :: 'f
  Dur :: 'f

record 'f TraceData =
  TraceEvents :: "'f TraceEvent list"

record 'f eventWithEnd = "'f TraceEvent" +
  End :: 'f

record 'f go_runtime =
  f64_mul1000 :: "'f \<Rightarrow> 'f"
  f64_to_int64 :: "'f \<Rightarrow> int64"
  sort_Slice :: "'f eventWithEnd list \<Rightarrow> 'f eventWithEnd list"
  chan_order :: "stackSample list list \<Rightarrow> stackSample list"
  map_range :: "(string \<times> sampleData) list \<Rightarrow> (string \<times> sampleData) list"

text \<open>
  What Go guarantees of them.  The samples on the channel are an interleaving of the
  workers' sequences: each receive takes the next sample of some worker.
\<close>

inductive interleaving :: "'a list list \<Rightarrow> 'a list \<Rightarrow> bool" where
  closed: "\<forall>q \<in> set qs. q = [] \<Longrightarrow> interleaving qs []"
| receive: "i < length qs \<Longrightarrow> qs ! i = x # q \<Longrightarrow> interleaving (qs[i := q]) xs
            \<Longrightarrow> interleaving qs (x # xs)"

definition runtime_ok :: "('f::linorder) go_runtime \<Rightarrow> bool" where
  "runtime_ok rt \<longleftrightarrow>
     (\<forall>events. mset (sort_Slice rt events) = mset events \<and>
               sorted (map Ts (sort_Slice rt events))) \<and>
     (\<forall>qs. interleaving qs (chan_order rt qs)) \<and>
     (\<forall>m. mset (map_range rt m) = mset m)"

subsection \<open>getTid\<close>

fun getTid :: "'f go_runtime \<Rightarrow> 'f iface \<Rightarrow> int64" where
  "getTid rt (IFloat64 v) = f64_to_int64 rt v"
| "getTid rt (IInt v) = v"
| "getTid rt (IInt64 v) = v"
| "getTid rt (IString v) = foldl (\<lambda>h c. h * 31 + scast c) 0 v"
| "getTid rt IOther = 0"

subsection \<open>ProcessThreadEvents\<close>

record 'f stackEntry =
  se_event :: "'f eventWithEnd"
  se_name :: string
  se_cat :: string

text \<open>The stack is a Go slice: its top is the last element.\<close>

function popEnded :: "('f::linorder) stackEntry list \<Rightarrow> 'f \<Rightarrow> 'f stackEntry list" where
  "popEnded stack ts =
     (if stack \<noteq> [] \<and> End (se_event (last stack)) < ts
      then popEnded (butlast stack) ts
      else stack)"
  by pat_completeness auto
termination
  by (relation "measure (\<lambda>(stack, ts). length stack)") auto

declare popEnded.simps [simp del]

text \<open>
  One round of the loop over the events: the stack the event finds is popped and
  filtered, the sample is built from what is left and the event, and the event is pushed.
  The counter is only read by progress reports and is left out; the Builder argument is
  not used by the function.
\<close>

definition retainedStack :: "('f::linorder) stackEntry list \<Rightarrow> 'f eventWithEnd \<Rightarrow> 'f stackEntry list" where
  "retainedStack stack event =
     filter (\<lambda>s. End (se_event s) \<ge> End event) (popEnded stack (Ts event))"

definition emit :: "('f::linorder) go_runtime \<Rightarrow> 'f stackEntry list \<Rightarrow> 'f eventWithEnd \<Rightarrow> stackSample" where
  "emit rt stack event =
     \<lparr>ss_stack = map (\<lambda>s. se_name s @ [CHR 0x00] @ se_cat s) stack
                   @ [Name event @ [CHR 0x00] @ Cat event],
      ss_names = map se_name stack @ [Name event],
      ss_cats = map se_cat stack @ [Cat event],
      ss_timeNs = f64_to_int64 rt (f64_mul1000 rt (Dur event))\<rparr>"

fun processLoop :: "('f::linorder) go_runtime \<Rightarrow> 'f stackEntry list \<Rightarrow> 'f eventWithEnd list
                      \<Rightarrow> stackSample list" where
  "processLoop rt stack [] = []"
| "processLoop rt stack (event # events) =
     (let stack' = retainedStack stack event;
          sample = emit rt stack' event;
          stack'' = stack' @ [\<lparr>se_event = event, se_name = Name event, se_cat = Cat event\<rparr>]
      in sample # processLoop rt stack'' events)"

definition ProcessThreadEvents :: "('f::linorder) go_runtime \<Rightarrow> 'f eventWithEnd list \<Rightarrow> stackSample list" where
  "ProcessThreadEvents rt events = processLoop rt [] events"

subsection \<open>ConvertTrace\<close>

record ConvertOptions =
  NumWorkers :: int

text \<open>
  \<open>threadEvents\<close>, a map from thread key to the thread's events, as the list of its
  entries in the order the keys first occur.
\<close>

definition withEnd :: "('f::plus) TraceEvent \<Rightarrow> 'f eventWithEnd" where
  "withEnd e = \<lparr>Ph = Ph e, Cat = Cat e, Name = Name e, Pid = Pid e, Tid = Tid e,
                Ts = Ts e, Dur = Dur e, End = Ts e + Dur e\<rparr>"

fun groupByThread :: "('f::{linorder,zero,plus}) go_runtime \<Rightarrow> (int64 \<times> 'f eventWithEnd list) list
                        \<Rightarrow> 'f TraceEvent list \<Rightarrow> (int64 \<times> 'f eventWithEnd list) list" where
  "groupByThread rt threadEvents [] = threadEvents"
| "groupByThread rt threadEvents (e # es) =
     (if Ph e \<noteq> ''X'' \<or> Dur e \<le> 0
      then groupByThread rt threadEvents es
      else (let tid = getTid rt (Tid e);
                old = (case map_of threadEvents tid of None \<Rightarrow> [] | Some evs \<Rightarrow> evs)
            in groupByThread rt (AList.update tid (old @ [withEnd e]) threadEvents) es))"

text \<open>The aggregation key: \<open>key += s + ";"\<close> over the sample's stack.\<close>

definition sampleKey :: "string list \<Rightarrow> string" where
  "sampleKey stack = foldl (\<lambda>key s. key @ s @ '';'') [] stack"

text \<open>
  The loop that resolves the location ids of a new key.  It calls
  \<open>GetOrCreateLocation\<close> for the frames in stack order and stores the id of frame
  \<open>i\<close> at position \<open>len - 1 - i\<close>.  The names and the categories of a sample have
  the same length (they are built together), so the loop runs over their pairs.
\<close>

fun locationLoop :: "Builder \<Rightarrow> (string \<times> string) list \<Rightarrow> nat list \<times> Builder" where
  "locationLoop pb [] = ([], pb)"
| "locationLoop pb ((n, c) # frames) =
     (let (locId, pb1) = GetOrCreateLocation pb n c;
          (ids, pb2) = locationLoop pb1 frames
      in (ids @ [locId], pb2))"

fun aggregate :: "Builder \<times> (string \<times> sampleData) list \<Rightarrow> stackSample
                    \<Rightarrow> Builder \<times> (string \<times> sampleData) list" where
  "aggregate (pb, sampleMap) sample =
     (let key = sampleKey (ss_stack sample) in
      case map_of sampleMap key of
        Some existing \<Rightarrow>
          (pb, AList.update key
                 (existing\<lparr>sd_count := sd_count existing + 1,
                           sd_timeNs := sd_timeNs existing + ss_timeNs sample\<rparr>) sampleMap)
      | None \<Rightarrow>
          (let (locationIds, pb') = locationLoop pb (zip (ss_names sample) (ss_cats sample))
           in (pb', AList.update key
                      \<lparr>sd_locationIds = locationIds, sd_count = 1,
                       sd_timeNs = ss_timeNs sample\<rparr> sampleMap)))"

declare aggregate.simps [simp del]

definition toSample :: "string \<times> sampleData \<Rightarrow> Sample" where
  "toSample entry = \<lparr>LocationId = sd_locationIds (snd entry),
                     Value = [sd_count (snd entry), sd_timeNs (snd entry)]\<rparr>"

definition setupBuilder :: Builder where
  "setupBuilder =
     (let pb = NewBuilder;
          pb = SetSampleTypes pb [(''samples'', ''count''), (''time'', ''nanoseconds'')];
          pb = SetPeriodType pb ''cpu'' ''nanoseconds''
      in pb\<lparr>profile := (profile pb)\<lparr>Period := 1000000\<rparr>\<rparr>)"

definition workerSamples :: "('f::{linorder,zero,plus}) go_runtime \<Rightarrow> 'f TraceData \<Rightarrow> stackSample list list" where
  "workerSamples rt traceData =
     map (\<lambda>(tid, events). ProcessThreadEvents rt (sort_Slice rt events))
         (groupByThread rt [] (TraceEvents traceData))"

definition ConvertTrace_builder :: "('f::{linorder,zero,plus}) go_runtime \<Rightarrow> 'f TraceData \<Rightarrow> ConvertOptions
                                      \<Rightarrow> Builder \<times> (string \<times> sampleData) list" where
  "ConvertTrace_builder rt traceData opts =
     foldl aggregate (setupBuilder, []) (chan_order rt (workerSamples rt traceData))"

definition ConvertTrace :: "('f::{linorder,zero,plus}) go_runtime \<Rightarrow> 'f TraceData \<Rightarrow> ConvertOptions \<Rightarrow> Profile" where
  "ConvertTrace rt traceData opts =
     (let (pb, sampleMap) = ConvertTrace_builder rt traceData opts;
          pb = pb\<lparr>profile := (profile pb)\<lparr>Sample :=
                  Sample (profile pb) @ map toSample (map_range rt sampleMap)\<rparr>\<rparr>
      in Build pb)"

section \<open>Specification vocabulary\<close>

subsection \<open>Consistency of the Builder's tables\<close>

text \<open>
  The String Table and its index say the same thing: \<open>stringIndex\<close> maps a string to
  \<open>i\<close> exactly when the table holds it at position \<open>i\<close>, and position 0 holds the
  empty string.
\<close>

definition string_inv :: "Builder \<Rightarrow> bool" where
  "string_inv pb \<longleftrightarrow>
     (let tbl = StringTable (profile pb) in
        tbl \<noteq> [] \<and> tbl ! 0 = [] \<and>
        (\<forall>s i. stringIndex pb s = Some i \<longleftrightarrow> i < length tbl \<and> tbl ! i = s))"

text \<open>
  The key under which a Function of the profile is indexed, read back from the Function's
  own string handles, and the key of a Location, read through its single Line.
\<close>

definition function_key :: "string list \<Rightarrow> Function \<Rightarrow> string" where
  "function_key tbl f = index_key (tbl ! fn_Name f) (tbl ! fn_Filename f)"

definition location_key :: "string list \<Rightarrow> Function list \<Rightarrow> Location \<Rightarrow> string" where
  "location_key tbl fns l = function_key tbl (fns ! (FunctionId (hd (loc_Line l)) - 1))"

text \<open>
  The k-th Function has id \<open>k + 1\<close> and handles inside the String Table, and
  \<open>functionIndex\<close> maps a key to an id exactly when the Function with that id has that
  key.  The same for Locations, each of which has one Line that names a Function.
\<close>

definition function_inv :: "Builder \<Rightarrow> bool" where
  "function_inv pb \<longleftrightarrow>
     (let tbl = StringTable (profile pb); fns = Function (profile pb) in
        (\<forall>k < length fns.
           fn_Id (fns ! k) = Suc k \<and> fn_Name (fns ! k) < length tbl \<and>
           fn_SystemName (fns ! k) = fn_Name (fns ! k) \<and> fn_Filename (fns ! k) < length tbl) \<and>
        (\<forall>key fid. functionIndex pb key = Some fid \<longleftrightarrow>
           (\<exists>k < length fns. fid = Suc k \<and> function_key tbl (fns ! k) = key)))"

definition location_inv :: "Builder \<Rightarrow> bool" where
  "location_inv pb \<longleftrightarrow>
     (let tbl = StringTable (profile pb); fns = Function (profile pb);
          locs = Location (profile pb) in
        (\<forall>k < length locs.
           loc_Id (locs ! k) = Suc k \<and>
           (\<exists>j < length fns. loc_Line (locs ! k) = [\<lparr>FunctionId = Suc j, line_Line = 0\<rparr>])) \<and>
        (\<forall>key lid. locationIndex pb key = Some lid \<longleftrightarrow>
           (\<exists>k < length locs. lid = Suc k \<and> location_key tbl fns (locs ! k) = key)))"

definition builder_inv :: "Builder \<Rightarrow> bool" where
  "builder_inv pb \<longleftrightarrow> string_inv pb \<and> function_inv pb \<and> location_inv pb"

text \<open>The last step of \<open>GetOrCreateLocation\<close> on a miss, named for the proofs.\<close>

definition appendLocation :: "Builder \<Rightarrow> string \<Rightarrow> nat \<Rightarrow> Builder" where
  "appendLocation pb key funcId =
     pb\<lparr>profile := (profile pb)\<lparr>Location := Location (profile pb) @
          [\<lparr>loc_Id = length (Location (profile pb)) + 1,
            loc_Line = [\<lparr>FunctionId = funcId, line_Line = 0\<rparr>]\<rparr>]\<rparr>,
        locationIndex := (locationIndex pb)(key \<mapsto> length (Location (profile pb)) + 1)\<rparr>"

text \<open>Two Builders with the same tables and indexes; one Builder's tables extending another's.\<close>

definition same_tables :: "Builder \<Rightarrow> Builder \<Rightarrow> bool" where
  "same_tables pb pb' \<longleftrightarrow>
     StringTable (profile pb') = StringTable (profile pb) \<and>
     Function (profile pb') = Function (profile pb) \<and>
     Location (profile pb') = Location (profile pb) \<and>
     stringIndex pb' = stringIndex pb \<and> functionIndex pb' = functionIndex pb \<and>
     locationIndex pb' = locationIndex pb"

definition extends :: "Builder \<Rightarrow> Builder \<Rightarrow> bool" where
  "extends pb pb' \<longleftrightarrow>
     prefix (StringTable (profile pb)) (StringTable (profile pb')) \<and>
     prefix (Function (profile pb)) (Function (profile pb')) \<and>
     prefix (Location (profile pb)) (Location (profile pb'))"

subsection \<open>Vocabulary for the conversion\<close>

text \<open>
  The duration of an event in nanoseconds, \<open>int64(event.Dur * 1000)\<close>; the handle the
  Builder gives for a frame; a frame whose Location exists; two Builders that differ only
  in their tables.
\<close>

definition durNs :: "'f go_runtime \<Rightarrow> 'f \<Rightarrow> int64" where
  "durNs rt d = f64_to_int64 rt (f64_mul1000 rt d)"

definition location_handle :: "Builder \<Rightarrow> string \<times> string \<Rightarrow> nat" where
  "location_handle pb fr = fst (GetOrCreateLocation pb (fst fr) (snd fr))"

definition resolved :: "Builder \<Rightarrow> string \<times> string \<Rightarrow> bool" where
  "resolved pb fr \<longleftrightarrow> locationIndex pb (index_key (fst fr) (snd fr)) \<noteq> None"

definition same_meta :: "Builder \<Rightarrow> Builder \<Rightarrow> bool" where
  "same_meta pb pb' \<longleftrightarrow>
     Sample (profile pb') = Sample (profile pb) \<and>
     SampleType (profile pb') = SampleType (profile pb) \<and>
     PeriodType (profile pb') = PeriodType (profile pb) \<and>
     Period (profile pb') = Period (profile pb)"

text \<open>
  The aggregation as a function of the arriving samples alone: per key the frames of the
  first sample that arrived with it, the number of samples and the sum of their
  durations.  \<open>agg_rel\<close> ties it to the state of \<open>ConvertTrace\<close>'s loop.
\<close>

definition frames :: "stackSample \<Rightarrow> (string \<times> string) list" where
  "frames s = zip (ss_names s) (ss_cats s)"

type_synonym summary = "(string \<times> string) list \<times> int64 \<times> int64"

definition agg_step :: "(string \<times> summary) list \<Rightarrow> stackSample \<Rightarrow> (string \<times> summary) list" where
  "agg_step am s =
     (let key = sampleKey (ss_stack s) in
      case map_of am key of
        Some (fr, cnt, t) \<Rightarrow> AList.update key (fr, cnt + 1, t + ss_timeNs s) am
      | None \<Rightarrow> AList.update key (frames s, 1, ss_timeNs s) am)"

definition agg :: "stackSample list \<Rightarrow> (string \<times> summary) list" where
  "agg arr = foldl agg_step [] arr"

definition stored :: "Builder \<Rightarrow> summary \<Rightarrow> sampleData" where
  "stored pb v =
     (case v of (fr, cnt, t) \<Rightarrow>
        \<lparr>sd_locationIds = rev (map (location_handle pb) fr), sd_count = cnt, sd_timeNs = t\<rparr>)"

definition agg_rel :: "Builder \<Rightarrow> (string \<times> sampleData) list \<Rightarrow> (string \<times> summary) list \<Rightarrow> bool" where
  "agg_rel pb m am \<longleftrightarrow>
     m = map (\<lambda>(k, v). (k, stored pb v)) am \<and>
     (\<forall>(k, fr, cnt, t) \<in> set am. \<forall>f \<in> set fr. resolved pb f)"

definition tsum :: "(string \<times> summary) list \<Rightarrow> int64" where
  "tsum am = sum_list (map (\<lambda>e. snd (snd (snd e))) am)"

text \<open>
  An instance for the examples: timestamps in whole microseconds, \<open>sort.Slice\<close> as
  the insertion sort Go runs on a slice of at most 12 elements, workers that deliver
  their samples one worker after the other, and \<open>range\<close> in insertion order.
\<close>

definition example_runtime :: "int go_runtime" where
  "example_runtime =
     \<lparr>f64_mul1000 = (\<lambda>d. d * 1000), f64_to_int64 = word_of_int,
      sort_Slice = sort_key Ts, chan_order = concat, map_range = (\<lambda>m. m)\<rparr>"

definition ev :: "string \<Rightarrow> string \<Rightarrow> string \<Rightarrow> int \<Rightarrow> int \<Rightarrow> int \<Rightarrow> int TraceEvent" where
  "ev ph name cat tid ts dur =
     \<lparr>Ph = ph, Cat = cat, Name = name, Pid = IOther, Tid = IFloat64 tid, Ts = ts, Dur = dur\<rparr>"

definition example_trace :: "int TraceData" where
  "example_trace = \<lparr>TraceEvents =
     [ev ''X'' ''op1'' ''cat1'' 1 100 50,
      ev ''X'' ''op2'' ''cat1'' 1 110 30,
      ev ''X'' ''op3'' ''cat2'' 2 200 20,
      ev ''B'' ''op1'' ''cat1'' 1 100 50,
      ev ''X'' ''op2'' ''cat1'' 1 200 0]\<rparr>"

subsection \<open>Vocabulary for the stack reconstruction\<close>

text \<open>
  The stack entry an event is pushed as, and the stack after a prefix of the thread's
  events.  The interval of an event is \<open>[Ts, End)\<close>.  A thread is properly nested when
  any two of its events are disjoint or one contains the other.  No event of a thread
  that \<open>ConvertTrace\<close> builds ends before it starts: its duration is positive and
  its end is \<open>Ts + Dur\<close>; \<open>ends_after_starts\<close> says so of a thread, and allows an
  end that is rounded to the start.
  \<open>parent_of es i j\<close>: event \<open>i\<close> comes before event \<open>j\<close> in the thread's order,
  contains it, and no event between them contains \<open>j\<close>.
\<close>

definition entry :: "'f eventWithEnd \<Rightarrow> 'f stackEntry" where
  "entry e = \<lparr>se_event = e, se_name = Name e, se_cat = Cat e\<rparr>"





definition ends_after_starts :: "('f::linorder) eventWithEnd list \<Rightarrow> bool" where
  "ends_after_starts es \<longleftrightarrow> (\<forall>e \<in> set es. Ts e \<le> End e)"





text \<open>The aggregation key of a sample, and a trace in which a stack occurs twice.\<close>

definition key_of :: "stackSample \<Rightarrow> string" where
  "key_of s = sampleKey (ss_stack s)"

definition repeat_trace :: "int TraceData" where
  "repeat_trace = \<lparr>TraceEvents =
     [ev ''X'' ''A'' ''cpu_op'' 1 0 100,
      ev ''X'' ''B'' ''kernel'' 1 10 30,
      ev ''X'' ''B'' ''kernel'' 1 50 20]\<rparr>"

subsection \<open>What a profile says, and key collisions\<close>

text \<open>
  The frame a Location id of a profile stands for: the name and the file name of the
  Function its only Line refers to, read from the String Table.  The content of a
  profile is the multiset of its samples with the ids replaced by the frames and the
  values left as they are; it does not depend on the order of the samples and on which
  ids the frames got.
\<close>

definition frame_of :: "Profile \<Rightarrow> nat \<Rightarrow> string \<times> string" where
  "frame_of p lid =
     (let l = Location p ! (lid - 1);
          f = Function p ! (FunctionId (hd (loc_Line l)) - 1)
      in (StringTable p ! fn_Name f, StringTable p ! fn_Filename f))"


text \<open>The Functions and the Locations a profile holds for a pair of name and category.\<close>

definition functions_for :: "Profile \<Rightarrow> string \<Rightarrow> string \<Rightarrow> Function list" where
  "functions_for p n c =
     filter (\<lambda>f. StringTable p ! fn_Name f = n \<and> StringTable p ! fn_Filename f = c) (Function p)"

definition locations_for :: "Profile \<Rightarrow> string \<Rightarrow> string \<Rightarrow> Location list" where
  "locations_for p n c = filter (\<lambda>l. frame_of p (loc_Id l) = (n, c)) (Location p)"


definition kept :: "('f::{linorder,zero}) TraceEvent \<Rightarrow> bool" where
  "kept e \<longleftrightarrow> Ph e = ''X'' \<and> 0 < Dur e"





text \<open>
  Two traces in which two different stacks have the same key: the stack of
  \<open>op\<close> under \<open>step\<close> with category \<open>user;forward\<close>, and the stack of
  \<open>forward;op\<close> under \<open>step\<close> with category \<open>user\<close>.  In the first trace the
  stacks are on one thread, in the second on two threads.
\<close>

definition collision_trace :: "int TraceData" where
  "collision_trace = \<lparr>TraceEvents =
     [ev ''X'' ''step'' ''user;forward'' 1 0 100,
      ev ''X'' ''op'' ''cpu'' 1 10 10,
      ev ''X'' ''step'' ''user'' 1 200 100,
      ev ''X'' ''forward;op'' ''cpu'' 1 210 10]\<rparr>"

definition collision_trace2 :: "int TraceData" where
  "collision_trace2 = \<lparr>TraceEvents =
     [ev ''X'' ''step'' ''user;forward'' 1 0 100,
      ev ''X'' ''op'' ''cpu'' 1 10 10,
      ev ''X'' ''step'' ''user'' 2 0 100,
      ev ''X'' ''forward;op'' ''cpu'' 2 10 10]\<rparr>"

text \<open>
  Two more instances of the runtime: one in which the samples of the last worker arrive
  first, and one whose sort leaves events with the same start in the reverse of their
  input order.
\<close>

definition reversed_runtime :: "int go_runtime" where
  "reversed_runtime = example_runtime\<lparr>chan_order := (\<lambda>qs. concat (rev qs))\<rparr>"


subsection \<open>Reading an encoding\<close>

text \<open>
  To say which fields an encoding holds, the bytes are read the way the protocol buffers
  wire format lays them out: a field is a tag, a varint whose low three bits are the wire
  type and whose other bits are the field number, followed by a varint (wire type 0) or by
  a length and that many bytes (wire type 2).  \<open>wire_fields\<close> gives the fields of a
  message in order, or \<open>None\<close> when the bytes are not a sequence of such fields.
\<close>

datatype wire_value = Varint uint64 | LengthDelimited "byte list"

fun decodeVarint :: "byte list \<Rightarrow> (uint64 \<times> byte list) option" where
  "decodeVarint [] = None"
| "decodeVarint (b # bs) =
     (if bit b 7
      then (case decodeVarint bs of
              None \<Rightarrow> None
            | Some (v, rest) \<Rightarrow> Some (push_bit 7 v OR ucast (take_bit 7 b), rest))
      else Some (ucast b, bs))"

function wire_fields :: "byte list \<Rightarrow> (uint64 \<times> wire_value) list option" where
  "wire_fields bs =
     (if bs = [] then Some []
      else case decodeVarint bs of
        None \<Rightarrow> None
      | Some (tag, r) \<Rightarrow>
          (case decodeVarint r of
             None \<Rightarrow> None
           | Some (v, r') \<Rightarrow>
               if take_bit 3 tag = 0
               then (case wire_fields r' of
                       None \<Rightarrow> None
                     | Some fs \<Rightarrow> Some ((drop_bit 3 tag, Varint v) # fs))
               else if take_bit 3 tag = 2 \<and> unat v \<le> length r'
               then (case wire_fields (drop (unat v) r') of
                       None \<Rightarrow> None
                     | Some fs \<Rightarrow> Some ((drop_bit 3 tag, LengthDelimited (take (unat v) r')) # fs))
               else None))"
  by pat_completeness auto
termination
proof (relation "measure length")
  have shorter: "decodeVarint bs = Some (v, r) \<Longrightarrow> length r < length bs" for bs v r
  proof (induction bs arbitrary: v r)
    case Nil
    then show ?case by simp
  next
    case (Cons b bs)
    show ?case
    proof (cases "bit b 7")
      case True
      then obtain v' where "decodeVarint bs = Some (v', r)"
        using Cons.prems by (auto split: option.splits)
      then have "length r < length bs" by (rule Cons.IH)
      then show ?thesis by simp
    next
      case False
      then show ?thesis using Cons.prems by simp
    qed
  qed
  show "wf (measure length)" by simp
  fix bs :: "byte list" and x2 tag r x2a v r'
  assume "decodeVarint bs = Some x2" "(tag, r) = x2" "decodeVarint r = Some x2a" "(v, r') = x2a"
  then have "length r < length bs" "length r' < length r"
    using shorter by metis+
  then show "(r', bs) \<in> measure length" "(drop (unat v) r', bs) \<in> measure length" by simp_all
qed

declare wire_fields.simps [simp del]

text \<open>
  The fields of an encoded profile.  \<open>lengths_fit\<close>: the lengths that \<open>Encode\<close>
  writes are below \<open>2^64\<close>, as the length of every Go slice and string is.
\<close>

definition top_fields :: "Profile \<Rightarrow> (uint64 \<times> wire_value) list" where
  "top_fields p =
     map (\<lambda>st. (1, LengthDelimited (encodeValueType st))) (SampleType p) @
     map (\<lambda>s. (2, LengthDelimited (encodeSample s))) (Sample p) @
     map (\<lambda>loc. (4, LengthDelimited (encodeLocation loc))) (Location p) @
     map (\<lambda>fn. (5, LengthDelimited (encodeFunction fn))) (Function p) @
     map (\<lambda>s. (6, LengthDelimited (map of_char s))) (StringTable p) @
     (if TimeNanos p = 0 then [] else [(9, Varint (TimeNanos p))]) @
     (if DurationNanos p = 0 then [] else [(10, Varint (DurationNanos p))]) @
     (case PeriodType p of None \<Rightarrow> []
      | Some vt \<Rightarrow> [(11, LengthDelimited (encodeValueType vt))]) @
     (if Period p = 0 then [] else [(12, Varint (Period p))])"

definition lengths_fit :: "Profile \<Rightarrow> bool" where
  "lengths_fit p \<longleftrightarrow>
     (\<forall>s \<in> set (Sample p). length (encodeSample s) < 2 ^ 64) \<and>
     (\<forall>l \<in> set (Location p). length (encodeLocation l) < 2 ^ 64) \<and>
     (\<forall>s \<in> set (StringTable p). length s < 2 ^ 64)"

text \<open>
  Two examples: the trace of one event that has no name and no category, and a profile
  with zero and non-zero scalars at the top level and in its messages.
\<close>

definition nameless_trace :: "int TraceData" where
  "nameless_trace = \<lparr>TraceEvents = [ev ''X'' '''' '''' 1 0 5]\<rparr>"

definition small_profile :: Profile where
  "small_profile =
     \<lparr>SampleType = [\<lparr>vt_Type = 1, vt_Unit = 2\<rparr>],
      Sample = [\<lparr>LocationId = [1], Value = [3, 0]\<rparr>, \<lparr>LocationId = [], Value = []\<rparr>],
      Location = [\<lparr>loc_Id = 1, loc_Line = [\<lparr>FunctionId = 1, line_Line = 0\<rparr>,
                                            \<lparr>FunctionId = 0, line_Line = 7\<rparr>]\<rparr>],
      Function = [\<lparr>fn_Id = 1, fn_Name = 3, fn_SystemName = 3, fn_Filename = 0\<rparr>],
      StringTable = ['''', ''n'', ''u'', ''f''],
      TimeNanos = 0, DurationNanos = 300, PeriodType = None, Period = 0\<rparr>"

section \<open>The Builder keeps its tables consistent\<close>

lemma string_inv_distinct: "string_inv pb \<Longrightarrow> distinct (StringTable (profile pb))"
  unfolding string_inv_def Let_def distinct_conv_nth
  by (metis option.inject)

lemma string_inv_NewBuilder: "string_inv NewBuilder"
  by (auto simp: string_inv_def NewBuilder_def)

lemma string_inv_lookup:
  "string_inv pb \<Longrightarrow> stringIndex pb s = Some i \<longleftrightarrow>
     i < length (StringTable (profile pb)) \<and> StringTable (profile pb) ! i = s"
  by (simp add: string_inv_def Let_def)

lemma string_inv_None:
  "string_inv pb \<Longrightarrow> stringIndex pb s = None \<longleftrightarrow> s \<notin> set (StringTable (profile pb))"
  by (metis in_set_conv_nth not_None_eq string_inv_lookup)

lemma AddString_locked_eq: "AddString_locked pb s = addStringLocked pb s"
  by (simp add: AddString_locked_def addStringLocked_def)

lemma AddString_eq: "AddString pb s = addStringLocked pb s"
  by (simp add: AddString_def AddString_locked_eq addStringLocked_def split: option.splits)

lemma addStringLocked_hit:
  "stringIndex pb s = Some i \<Longrightarrow> addStringLocked pb s = (i, pb)"
  by (simp add: addStringLocked_def)

lemma addStringLocked_miss:
  "stringIndex pb s = None \<Longrightarrow>
   addStringLocked pb s =
     (length (StringTable (profile pb)),
      pb\<lparr>profile := (profile pb)\<lparr>StringTable := StringTable (profile pb) @ [s]\<rparr>,
         stringIndex := (stringIndex pb)(s \<mapsto> length (StringTable (profile pb)))\<rparr>)"
  by (simp add: addStringLocked_def Let_def)

lemma string_inv_addStringLocked:
  assumes "string_inv pb"
  shows "string_inv (snd (addStringLocked pb s))"
proof (cases "stringIndex pb s")
  case (Some i)
  then show ?thesis using assms by (simp add: addStringLocked_hit)
next
  case None
  then have notin: "s \<notin> set (StringTable (profile pb))"
    using assms by (simp add: string_inv_None)
  have "\<And>i. i < length (StringTable (profile pb)) \<Longrightarrow> StringTable (profile pb) ! i \<noteq> s"
    using notin by (metis nth_mem)
  then show ?thesis
    using assms None
    by (auto simp: addStringLocked_miss string_inv_def Let_def nth_append)
qed

lemma addStringLocked_frame:
  "Function (profile (snd (addStringLocked pb s))) = Function (profile pb)"
  "Location (profile (snd (addStringLocked pb s))) = Location (profile pb)"
  "Sample (profile (snd (addStringLocked pb s))) = Sample (profile pb)"
  "SampleType (profile (snd (addStringLocked pb s))) = SampleType (profile pb)"
  "PeriodType (profile (snd (addStringLocked pb s))) = PeriodType (profile pb)"
  "Period (profile (snd (addStringLocked pb s))) = Period (profile pb)"
  "TimeNanos (profile (snd (addStringLocked pb s))) = TimeNanos (profile pb)"
  "DurationNanos (profile (snd (addStringLocked pb s))) = DurationNanos (profile pb)"
  "functionIndex (snd (addStringLocked pb s)) = functionIndex pb"
  "locationIndex (snd (addStringLocked pb s)) = locationIndex pb"
  by (simp_all add: addStringLocked_def Let_def split: option.splits)

lemma addStringLocked_prefix:
  "prefix (StringTable (profile pb)) (StringTable (profile (snd (addStringLocked pb s))))"
  by (simp add: addStringLocked_def Let_def split: option.splits)

lemma addStringLocked_index:
  assumes "string_inv pb"
  shows "fst (addStringLocked pb s) < length (StringTable (profile (snd (addStringLocked pb s))))"
    and "StringTable (profile (snd (addStringLocked pb s))) ! fst (addStringLocked pb s) = s"
  using assms
  by (auto simp: addStringLocked_def Let_def string_inv_lookup split: option.splits)

lemma builder_inv_NewBuilder: "builder_inv NewBuilder"
proof -
  have "function_inv NewBuilder" "location_inv NewBuilder"
    by (simp_all add: function_inv_def location_inv_def NewBuilder_def)
  then show ?thesis by (simp add: builder_inv_def string_inv_NewBuilder)
qed

lemma function_key_prefix:
  "prefix tbl tbl' \<Longrightarrow> fn_Name f < length tbl \<Longrightarrow> fn_Filename f < length tbl \<Longrightarrow>
   function_key tbl' f = function_key tbl f"
  by (auto simp: function_key_def prefix_def nth_append)

lemma function_inv_key_prefix:
  assumes "function_inv pb" "prefix (StringTable (profile pb)) tbl'"
    "k < length (Function (profile pb))"
  shows "function_key tbl' (Function (profile pb) ! k)
       = function_key (StringTable (profile pb)) (Function (profile pb) ! k)"
  using assms by (auto simp: function_inv_def Let_def intro!: function_key_prefix)

lemma location_inv_key:
  assumes "location_inv pb" "k < length (Location (profile pb))"
  obtains j where "j < length (Function (profile pb))"
    "loc_Line (Location (profile pb) ! k) = [\<lparr>FunctionId = Suc j, line_Line = 0\<rparr>]"
    "\<And>tbl fns. location_key tbl fns (Location (profile pb) ! k) = function_key tbl (fns ! j)"
proof -
  obtain j where j: "j < length (Function (profile pb))"
    "loc_Line (Location (profile pb) ! k) = [\<lparr>FunctionId = Suc j, line_Line = 0\<rparr>]"
    using assms unfolding location_inv_def Let_def by blast
  then have "\<And>tbl fns. location_key tbl fns (Location (profile pb) ! k) = function_key tbl (fns ! j)"
    by (simp add: location_key_def)
  with j show ?thesis using that by blast
qed

lemma location_inv_key_prefix:
  assumes "function_inv pb" "location_inv pb" "prefix (StringTable (profile pb)) tbl'"
    "prefix (Function (profile pb)) fns'"
    "k < length (Location (profile pb))"
  shows "location_key tbl' fns' (Location (profile pb) ! k)
       = location_key (StringTable (profile pb)) (Function (profile pb)) (Location (profile pb) ! k)"
proof -
  obtain j where j: "j < length (Function (profile pb))"
    "\<And>tbl fns. location_key tbl fns (Location (profile pb) ! k) = function_key tbl (fns ! j)"
    using location_inv_key[OF assms(2,5)] by metis
  have "fns' ! j = Function (profile pb) ! j"
    using assms(4) j(1) by (auto simp: prefix_def nth_append)
  then show ?thesis
    using j function_inv_key_prefix[OF assms(1,3) j(1)] by simp
qed

lemma function_inv_addStringLocked:
  assumes "function_inv pb"
  shows "function_inv (snd (addStringLocked pb s))"
proof -
  let ?pb' = "snd (addStringLocked pb s)"
  have pre: "prefix (StringTable (profile pb)) (StringTable (profile ?pb'))"
    by (rule addStringLocked_prefix)
  then have len: "length (StringTable (profile pb)) \<le> length (StringTable (profile ?pb'))"
    by (rule prefix_length_le)
  note keys = function_inv_key_prefix[OF assms pre]
  show ?thesis
    using assms len unfolding function_inv_def Let_def addStringLocked_frame
    by (auto simp: keys dest: less_le_trans)
qed

lemma location_inv_addStringLocked:
  assumes "function_inv pb" "location_inv pb"
  shows "location_inv (snd (addStringLocked pb s))"
proof -
  let ?pb' = "snd (addStringLocked pb s)"
  have pre: "prefix (StringTable (profile pb)) (StringTable (profile ?pb'))"
    by (rule addStringLocked_prefix)
  note keys = location_inv_key_prefix[OF assms pre prefix_order.order_refl]
  show ?thesis
    using assms(2) unfolding location_inv_def Let_def addStringLocked_frame
    by (auto simp: keys)
qed

lemma builder_inv_addStringLocked:
  "builder_inv pb \<Longrightarrow> builder_inv (snd (addStringLocked pb s))"
  by (simp add: builder_inv_def string_inv_addStringLocked function_inv_addStringLocked
      location_inv_addStringLocked)

lemma addStringLocked_again:
  assumes "string_inv pb"
  shows "addStringLocked (snd (addStringLocked pb s)) s
       = (fst (addStringLocked pb s), snd (addStringLocked pb s))"
proof -
  have "string_inv (snd (addStringLocked pb s))"
    using assms by (rule string_inv_addStringLocked)
  then have "stringIndex (snd (addStringLocked pb s)) s = Some (fst (addStringLocked pb s))"
    using addStringLocked_index[OF assms, of s] by (simp add: string_inv_lookup)
  then show ?thesis by (rule addStringLocked_hit)
qed

lemma createFunction_eq:
  assumes "string_inv pb"
  shows "createFunction pb key name filename fid =
     (let pb1 = snd (addStringLocked pb name);
          pb3 = snd (addStringLocked pb1 filename)
      in pb3\<lparr>profile := (profile pb3)\<lparr>Function := Function (profile pb) @
                [\<lparr>fn_Id = fid, fn_Name = fst (addStringLocked pb name),
                  fn_SystemName = fst (addStringLocked pb name),
                  fn_Filename = fst (addStringLocked pb1 filename)\<rparr>]\<rparr>,
              functionIndex := (functionIndex pb)(key \<mapsto> fid)\<rparr>)"
  by (simp add: createFunction_def Let_def split_beta addStringLocked_again[OF assms]
      addStringLocked_frame)

lemma createFunction_frame:
  assumes "string_inv pb"
  shows "Location (profile (createFunction pb key name filename fid)) = Location (profile pb)"
    and "locationIndex (createFunction pb key name filename fid) = locationIndex pb"
    and "Function (profile (createFunction pb key name filename fid)) =
           Function (profile pb) @
             [\<lparr>fn_Id = fid, fn_Name = fst (addStringLocked pb name),
               fn_SystemName = fst (addStringLocked pb name),
               fn_Filename = fst (addStringLocked (snd (addStringLocked pb name)) filename)\<rparr>]"
    and "functionIndex (createFunction pb key name filename fid) = (functionIndex pb)(key \<mapsto> fid)"
    and "StringTable (profile (createFunction pb key name filename fid)) =
           StringTable (profile (snd (addStringLocked (snd (addStringLocked pb name)) filename)))"
    and "stringIndex (createFunction pb key name filename fid) =
           stringIndex (snd (addStringLocked (snd (addStringLocked pb name)) filename))"
    and "Sample (profile (createFunction pb key name filename fid)) = Sample (profile pb)"
    and "SampleType (profile (createFunction pb key name filename fid)) = SampleType (profile pb)"
    and "PeriodType (profile (createFunction pb key name filename fid)) = PeriodType (profile pb)"
    and "Period (profile (createFunction pb key name filename fid)) = Period (profile pb)"
    and "TimeNanos (profile (createFunction pb key name filename fid)) = TimeNanos (profile pb)"
    and "DurationNanos (profile (createFunction pb key name filename fid)) = DurationNanos (profile pb)"
  by (simp_all add: createFunction_eq[OF assms] Let_def addStringLocked_frame)

lemma createFunction_prefix:
  assumes "string_inv pb"
  shows "prefix (StringTable (profile pb)) (StringTable (profile (createFunction pb key name filename fid)))"
  unfolding createFunction_frame[OF assms]
  by (meson addStringLocked_prefix prefix_order.order_trans)

lemma string_inv_createFunction:
  assumes "string_inv pb"
  shows "string_inv (createFunction pb key name filename fid)"
proof -
  have "string_inv (snd (addStringLocked (snd (addStringLocked pb name)) filename))"
    using assms by (intro string_inv_addStringLocked)
  then show ?thesis
    by (simp add: string_inv_def createFunction_frame[OF assms])
qed

lemma createFunction_new_key:
  assumes "string_inv pb"
  shows "function_key (StringTable (profile (createFunction pb key name filename fid)))
           \<lparr>fn_Id = fid, fn_Name = fst (addStringLocked pb name),
            fn_SystemName = fst (addStringLocked pb name),
            fn_Filename = fst (addStringLocked (snd (addStringLocked pb name)) filename)\<rparr>
         = index_key name filename"
    and "fst (addStringLocked pb name) < length (StringTable (profile (createFunction pb key name filename fid)))"
    and "fst (addStringLocked (snd (addStringLocked pb name)) filename)
           < length (StringTable (profile (createFunction pb key name filename fid)))"
proof -
  let ?pb1 = "snd (addStringLocked pb name)"
  let ?pb3 = "snd (addStringLocked ?pb1 filename)"
  have inv1: "string_inv ?pb1" using assms by (rule string_inv_addStringLocked)
  have n: "fst (addStringLocked pb name) < length (StringTable (profile ?pb1))"
    "StringTable (profile ?pb1) ! fst (addStringLocked pb name) = name"
    using addStringLocked_index[OF assms] by auto
  have f: "fst (addStringLocked ?pb1 filename) < length (StringTable (profile ?pb3))"
    "StringTable (profile ?pb3) ! fst (addStringLocked ?pb1 filename) = filename"
    using addStringLocked_index[OF inv1] by auto
  have pre: "prefix (StringTable (profile ?pb1)) (StringTable (profile ?pb3))"
    by (rule addStringLocked_prefix)
  have n3: "StringTable (profile ?pb3) ! fst (addStringLocked pb name) = name"
    using n pre by (auto simp: prefix_def nth_append)
  show "function_key (StringTable (profile (createFunction pb key name filename fid)))
           \<lparr>fn_Id = fid, fn_Name = fst (addStringLocked pb name),
            fn_SystemName = fst (addStringLocked pb name),
            fn_Filename = fst (addStringLocked (snd (addStringLocked pb name)) filename)\<rparr>
         = index_key name filename"
    by (simp add: createFunction_frame[OF assms] function_key_def n3 f)
  show "fst (addStringLocked pb name) < length (StringTable (profile (createFunction pb key name filename fid)))"
    using n(1) prefix_length_le[OF pre] by (simp add: createFunction_frame[OF assms])
  show "fst (addStringLocked (snd (addStringLocked pb name)) filename)
           < length (StringTable (profile (createFunction pb key name filename fid)))"
    using f(1) by (simp add: createFunction_frame[OF assms])
qed

lemma function_inv_createFunction:
  assumes s: "string_inv pb" and f: "function_inv pb"
    and none: "functionIndex pb (index_key name filename) = None"
  shows "function_inv (createFunction pb (index_key name filename) name filename
           (length (Function (profile pb)) + 1))"
proof -
  let ?key = "index_key name filename"
  let ?fid = "length (Function (profile pb)) + 1"
  let ?pb' = "createFunction pb ?key name filename ?fid"
  let ?fn = "\<lparr>fn_Id = ?fid, fn_Name = fst (addStringLocked pb name),
            fn_SystemName = fst (addStringLocked pb name),
            fn_Filename = fst (addStringLocked (snd (addStringLocked pb name)) filename)\<rparr>"
  let ?fns = "Function (profile pb)"
  let ?tbl = "StringTable (profile pb)"
  let ?tbl' = "StringTable (profile ?pb')"
  have fns': "Function (profile ?pb') = ?fns @ [?fn]"
    by (rule createFunction_frame[OF s])
  have idx': "functionIndex ?pb' = (functionIndex pb)(?key \<mapsto> ?fid)"
    by (rule createFunction_frame[OF s])
  have pre: "prefix ?tbl ?tbl'" by (rule createFunction_prefix[OF s])
  have len: "length ?tbl \<le> length ?tbl'" using pre by (rule prefix_length_le)
  note old_keys = function_inv_key_prefix[OF f pre]
  note new = createFunction_new_key[OF s, where key = ?key and name = name and filename = filename and fid = ?fid]
  have old_ne: "\<And>k. k < length ?fns \<Longrightarrow> function_key ?tbl (?fns ! k) \<noteq> ?key"
    using f none unfolding function_inv_def Let_def by (metis option.distinct(1))
  have part1: "\<forall>k < length (?fns @ [?fn]).
           fn_Id ((?fns @ [?fn]) ! k) = Suc k \<and> fn_Name ((?fns @ [?fn]) ! k) < length ?tbl' \<and>
           fn_SystemName ((?fns @ [?fn]) ! k) = fn_Name ((?fns @ [?fn]) ! k) \<and>
           fn_Filename ((?fns @ [?fn]) ! k) < length ?tbl'"
  proof (intro allI impI)
    fix k assume "k < length (?fns @ [?fn])"
    then consider "k < length ?fns" | "k = length ?fns" by fastforce
    then show "fn_Id ((?fns @ [?fn]) ! k) = Suc k \<and> fn_Name ((?fns @ [?fn]) ! k) < length ?tbl' \<and>
           fn_SystemName ((?fns @ [?fn]) ! k) = fn_Name ((?fns @ [?fn]) ! k) \<and>
           fn_Filename ((?fns @ [?fn]) ! k) < length ?tbl'"
    proof cases
      case 1
      then show ?thesis
        using f len unfolding function_inv_def Let_def
        by (auto simp: nth_append dest: less_le_trans)
    next
      case 2
      then show ?thesis using new(2,3) by simp
    qed
  qed
  have part2: "\<forall>key fid. ((functionIndex pb)(?key \<mapsto> ?fid)) key = Some fid \<longleftrightarrow>
           (\<exists>k < length (?fns @ [?fn]). fid = Suc k \<and> function_key ?tbl' ((?fns @ [?fn]) ! k) = key)"
  proof (intro allI)
    fix key fid
    show "((functionIndex pb)(?key \<mapsto> ?fid)) key = Some fid \<longleftrightarrow>
           (\<exists>k < length (?fns @ [?fn]). fid = Suc k \<and> function_key ?tbl' ((?fns @ [?fn]) ! k) = key)"
    proof (cases "key = ?key")
      case True
      have "(\<exists>k < length (?fns @ [?fn]). fid = Suc k \<and> function_key ?tbl' ((?fns @ [?fn]) ! k) = ?key)
            \<longleftrightarrow> fid = ?fid"
      proof
        assume "\<exists>k < length (?fns @ [?fn]). fid = Suc k \<and> function_key ?tbl' ((?fns @ [?fn]) ! k) = ?key"
        then obtain k where k: "k < length (?fns @ [?fn])" "fid = Suc k"
          "function_key ?tbl' ((?fns @ [?fn]) ! k) = ?key" by blast
        have "\<not> k < length ?fns"
        proof
          assume "k < length ?fns"
          then show False using k(3) old_keys[of k] old_ne[of k] by (simp add: nth_append)
        qed
        then show "fid = ?fid" using k(1,2) by simp
      next
        assume "fid = ?fid"
        then show "\<exists>k < length (?fns @ [?fn]). fid = Suc k \<and> function_key ?tbl' ((?fns @ [?fn]) ! k) = ?key"
          using new(1) by (intro exI[of _ "length ?fns"]) simp
      qed
      then show ?thesis using True by auto
    next
      case False
      have "(\<exists>k < length (?fns @ [?fn]). fid = Suc k \<and> function_key ?tbl' ((?fns @ [?fn]) ! k) = key)
            \<longleftrightarrow> (\<exists>k < length ?fns. fid = Suc k \<and> function_key ?tbl (?fns ! k) = key)"
      proof
        assume "\<exists>k < length (?fns @ [?fn]). fid = Suc k \<and> function_key ?tbl' ((?fns @ [?fn]) ! k) = key"
        then obtain k where k: "k < length (?fns @ [?fn])" "fid = Suc k"
          "function_key ?tbl' ((?fns @ [?fn]) ! k) = key" by blast
        have "k < length ?fns"
        proof (rule ccontr)
          assume "\<not> k < length ?fns"
          then have "k = length ?fns" using k(1) by simp
          then show False using k(3) new(1) False by simp
        qed
        then show "\<exists>k < length ?fns. fid = Suc k \<and> function_key ?tbl (?fns ! k) = key"
          using k old_keys[of k] by (auto simp: nth_append)
      next
        assume "\<exists>k < length ?fns. fid = Suc k \<and> function_key ?tbl (?fns ! k) = key"
        then obtain k where k: "k < length ?fns" "fid = Suc k" "function_key ?tbl (?fns ! k) = key"
          by blast
        then show "\<exists>k < length (?fns @ [?fn]). fid = Suc k \<and> function_key ?tbl' ((?fns @ [?fn]) ! k) = key"
          using old_keys[of k] by (intro exI[of _ k]) (simp add: nth_append)
      qed
      moreover have "functionIndex pb key = Some fid \<longleftrightarrow>
          (\<exists>k < length ?fns. fid = Suc k \<and> function_key ?tbl (?fns ! k) = key)"
        using f unfolding function_inv_def Let_def by blast
      ultimately show ?thesis using False by simp
    qed
  qed
  show ?thesis
    unfolding function_inv_def Let_def fns' idx' using part1 part2 by blast
qed

lemma location_inv_createFunction:
  assumes s: "string_inv pb" and f: "function_inv pb" and l: "location_inv pb"
  shows "location_inv (createFunction pb key name filename fid)"
proof -
  let ?pb' = "createFunction pb key name filename fid"
  have pre: "prefix (StringTable (profile pb)) (StringTable (profile ?pb'))"
    by (rule createFunction_prefix[OF s])
  have pref: "prefix (Function (profile pb)) (Function (profile ?pb'))"
    by (simp add: createFunction_frame[OF s])
  note keys = location_inv_key_prefix[OF f l pre pref]
  have lf: "length (Function (profile pb)) \<le> length (Function (profile ?pb'))"
    using pref by (rule prefix_length_le)
  have part1: "\<forall>k < length (Location (profile pb)).
           loc_Id (Location (profile pb) ! k) = Suc k \<and>
           (\<exists>j < length (Function (profile ?pb')).
               loc_Line (Location (profile pb) ! k) = [\<lparr>FunctionId = Suc j, line_Line = 0\<rparr>])"
    using l lf unfolding location_inv_def Let_def by (meson less_le_trans)
  have part2: "\<forall>key lid. locationIndex pb key = Some lid \<longleftrightarrow>
           (\<exists>k < length (Location (profile pb)). lid = Suc k \<and>
              location_key (StringTable (profile ?pb')) (Function (profile ?pb'))
                (Location (profile pb) ! k) = key)"
    using l unfolding location_inv_def Let_def by (auto simp: keys)
  show ?thesis
    unfolding location_inv_def Let_def createFunction_frame(1,2)[OF s]
    using part1 part2 by blast
qed

lemma builder_inv_createFunction:
  assumes "builder_inv pb" "functionIndex pb (index_key name filename) = None"
  shows "builder_inv (createFunction pb (index_key name filename) name filename
           (length (Function (profile pb)) + 1))"
  using assms
  by (simp add: builder_inv_def string_inv_createFunction function_inv_createFunction
      location_inv_createFunction del: One_nat_def)

lemma function_inv_Some_pos:
  "function_inv pb \<Longrightarrow> functionIndex pb key = Some fid \<Longrightarrow> 0 < fid"
  unfolding function_inv_def Let_def by (metis zero_less_Suc)

lemma builder_inv_GetOrCreateFunction_locked:
  assumes "builder_inv pb"
  shows "builder_inv (snd (GetOrCreateFunction_locked pb name filename))"
  using assms
  by (auto simp: GetOrCreateFunction_locked_def Let_def builder_inv_createFunction
      simp del: One_nat_def split: option.splits)

lemma builder_inv_appendLocation:
  assumes inv: "builder_inv pb" and fi: "functionIndex pb key = Some fid"
    and none: "locationIndex pb key = None"
  shows "builder_inv (appendLocation pb key fid)"
proof -
  let ?locs = "Location (profile pb)"
  let ?fns = "Function (profile pb)"
  let ?tbl = "StringTable (profile pb)"
  let ?loc = "\<lparr>loc_Id = length ?locs + 1, loc_Line = [\<lparr>FunctionId = fid, line_Line = 0\<rparr>]\<rparr>"
  have s: "string_inv pb" and f: "function_inv pb" and l: "location_inv pb"
    using inv by (simp_all add: builder_inv_def)
  obtain j where j: "j < length ?fns" "fid = Suc j" "function_key ?tbl (?fns ! j) = key"
    using f fi unfolding function_inv_def Let_def by blast
  have newkey: "location_key ?tbl ?fns ?loc = key"
    using j by (simp add: location_key_def)
  have old_ne: "\<And>k. k < length ?locs \<Longrightarrow> location_key ?tbl ?fns (?locs ! k) \<noteq> key"
    using l none unfolding location_inv_def Let_def by (metis option.distinct(1))
  have old: "\<And>key lid. locationIndex pb key = Some lid \<longleftrightarrow>
           (\<exists>k < length ?locs. lid = Suc k \<and> location_key ?tbl ?fns (?locs ! k) = key)"
    using l unfolding location_inv_def Let_def by blast
  have part1: "\<forall>k < length (?locs @ [?loc]).
           loc_Id ((?locs @ [?loc]) ! k) = Suc k \<and>
           (\<exists>j < length ?fns. loc_Line ((?locs @ [?loc]) ! k) = [\<lparr>FunctionId = Suc j, line_Line = 0\<rparr>])"
  proof (intro allI impI)
    fix k assume "k < length (?locs @ [?loc])"
    then consider "k < length ?locs" | "k = length ?locs" by fastforce
    then show "loc_Id ((?locs @ [?loc]) ! k) = Suc k \<and>
           (\<exists>j < length ?fns. loc_Line ((?locs @ [?loc]) ! k) = [\<lparr>FunctionId = Suc j, line_Line = 0\<rparr>])"
    proof cases
      case 1
      then show ?thesis using l unfolding location_inv_def Let_def by (simp add: nth_append)
    next
      case 2
      then show ?thesis using j by simp
    qed
  qed
  have part2: "\<forall>key' lid. ((locationIndex pb)(key \<mapsto> length ?locs + 1)) key' = Some lid \<longleftrightarrow>
           (\<exists>k < length (?locs @ [?loc]). lid = Suc k \<and>
               location_key ?tbl ?fns ((?locs @ [?loc]) ! k) = key')"
  proof (intro allI)
    fix key' lid
    show "((locationIndex pb)(key \<mapsto> length ?locs + 1)) key' = Some lid \<longleftrightarrow>
           (\<exists>k < length (?locs @ [?loc]). lid = Suc k \<and>
               location_key ?tbl ?fns ((?locs @ [?loc]) ! k) = key')"
    proof (cases "key' = key")
      case True
      have "(\<exists>k < length (?locs @ [?loc]). lid = Suc k \<and>
               location_key ?tbl ?fns ((?locs @ [?loc]) ! k) = key) \<longleftrightarrow> lid = length ?locs + 1"
      proof
        assume "\<exists>k < length (?locs @ [?loc]). lid = Suc k \<and>
               location_key ?tbl ?fns ((?locs @ [?loc]) ! k) = key"
        then obtain k where k: "k < length (?locs @ [?loc])" "lid = Suc k"
          "location_key ?tbl ?fns ((?locs @ [?loc]) ! k) = key" by blast
        have "\<not> k < length ?locs"
        proof
          assume "k < length ?locs"
          then show False using k(3) old_ne[of k] by (simp add: nth_append)
        qed
        then show "lid = length ?locs + 1" using k(1,2) by simp
      next
        assume "lid = length ?locs + 1"
        then show "\<exists>k < length (?locs @ [?loc]). lid = Suc k \<and>
               location_key ?tbl ?fns ((?locs @ [?loc]) ! k) = key"
          using newkey by (intro exI[of _ "length ?locs"]) simp
      qed
      then show ?thesis using True by auto
    next
      case False
      have "(\<exists>k < length (?locs @ [?loc]). lid = Suc k \<and>
               location_key ?tbl ?fns ((?locs @ [?loc]) ! k) = key')
            \<longleftrightarrow> (\<exists>k < length ?locs. lid = Suc k \<and> location_key ?tbl ?fns (?locs ! k) = key')"
      proof
        assume "\<exists>k < length (?locs @ [?loc]). lid = Suc k \<and>
               location_key ?tbl ?fns ((?locs @ [?loc]) ! k) = key'"
        then obtain k where k: "k < length (?locs @ [?loc])" "lid = Suc k"
          "location_key ?tbl ?fns ((?locs @ [?loc]) ! k) = key'" by blast
        have "k < length ?locs"
        proof (rule ccontr)
          assume "\<not> k < length ?locs"
          then have "k = length ?locs" using k(1) by simp
          then show False using k(3) newkey False by simp
        qed
        then show "\<exists>k < length ?locs. lid = Suc k \<and> location_key ?tbl ?fns (?locs ! k) = key'"
          using k by (auto simp: nth_append)
      next
        assume "\<exists>k < length ?locs. lid = Suc k \<and> location_key ?tbl ?fns (?locs ! k) = key'"
        then obtain k where k: "k < length ?locs" "lid = Suc k"
          "location_key ?tbl ?fns (?locs ! k) = key'" by blast
        then show "\<exists>k < length (?locs @ [?loc]). lid = Suc k \<and>
               location_key ?tbl ?fns ((?locs @ [?loc]) ! k) = key'"
          by (intro exI[of _ k]) (simp add: nth_append)
      qed
      then show ?thesis using False old[of key' lid] by simp
    qed
  qed
  have "location_inv (appendLocation pb key fid)"
    unfolding location_inv_def Let_def appendLocation_def using part1 part2 by simp
  moreover have "string_inv (appendLocation pb key fid)"
    using s by (simp add: string_inv_def appendLocation_def)
  moreover have "function_inv (appendLocation pb key fid)"
    using f by (simp add: function_inv_def appendLocation_def)
  ultimately show ?thesis by (simp add: builder_inv_def)
qed

lemma GetOrCreateLocation_locked_miss:
  assumes "function_inv pb" "locationIndex pb (index_key name filename) = None"
  shows "GetOrCreateLocation_locked pb name filename =
     (let key = index_key name filename;
          pb1 = (case functionIndex pb key of
                   None \<Rightarrow> createFunction pb key name filename (length (Function (profile pb)) + 1)
                 | Some v \<Rightarrow> pb);
          funcId = (case functionIndex pb key of
                   None \<Rightarrow> length (Function (profile pb)) + 1 | Some v \<Rightarrow> v)
      in (length (Location (profile pb1)) + 1, appendLocation pb1 key funcId))"
proof (cases "functionIndex pb (index_key name filename)")
  case None
  then show ?thesis
    using assms(2) by (simp add: GetOrCreateLocation_locked_def Let_def appendLocation_def)
next
  case (Some v)
  then have "v \<noteq> 0" using function_inv_Some_pos[OF assms(1) Some] by simp
  then show ?thesis
    using assms(2) Some by (simp add: GetOrCreateLocation_locked_def Let_def appendLocation_def)
qed

lemma builder_inv_GetOrCreateLocation_locked:
  assumes inv: "builder_inv pb"
  shows "builder_inv (snd (GetOrCreateLocation_locked pb name filename))"
proof (cases "locationIndex pb (index_key name filename)")
  case (Some lid)
  then show ?thesis using inv by (simp add: GetOrCreateLocation_locked_def)
next
  case None
  have s: "string_inv pb" and f: "function_inv pb"
    using inv by (simp_all add: builder_inv_def)
  show ?thesis
  proof (cases "functionIndex pb (index_key name filename)")
    case fnone: None
    let ?pb1 = "createFunction pb (index_key name filename) name filename (length (Function (profile pb)) + 1)"
    have inv1: "builder_inv ?pb1" using inv fnone by (rule builder_inv_createFunction)
    have "functionIndex ?pb1 (index_key name filename) = Some (length (Function (profile pb)) + 1)"
      by (simp add: createFunction_frame[OF s])
    moreover have "locationIndex ?pb1 (index_key name filename) = None"
      using None by (simp add: createFunction_frame[OF s])
    ultimately have "builder_inv (appendLocation ?pb1 (index_key name filename) (length (Function (profile pb)) + 1))"
      using inv1 by (intro builder_inv_appendLocation)
    then show ?thesis
      using fnone by (simp add: GetOrCreateLocation_locked_miss[OF f None] Let_def)
  next
    case (Some v)
    then have "builder_inv (appendLocation pb (index_key name filename) v)"
      using inv None by (intro builder_inv_appendLocation)
    then show ?thesis
      using Some by (simp add: GetOrCreateLocation_locked_miss[OF f None] Let_def)
  qed
qed

lemma GetOrCreateFunction_eq: "GetOrCreateFunction pb n f = GetOrCreateFunction_locked pb n f"
  by (simp add: GetOrCreateFunction_def GetOrCreateFunction_locked_def Let_def split: option.splits)

lemma GetOrCreateLocation_eq: "GetOrCreateLocation pb n f = GetOrCreateLocation_locked pb n f"
  by (simp add: GetOrCreateLocation_def GetOrCreateLocation_locked_def Let_def split: option.splits)

lemma builder_inv_AddString: "builder_inv pb \<Longrightarrow> builder_inv (snd (AddString pb s))"
  by (simp add: AddString_eq builder_inv_addStringLocked)

lemma AddString_frame:
  "Function (profile (snd (AddString pb s))) = Function (profile pb)"
  "Location (profile (snd (AddString pb s))) = Location (profile pb)"
  "Sample (profile (snd (AddString pb s))) = Sample (profile pb)"
  by (simp_all add: AddString_eq addStringLocked_frame)

lemma builder_inv_same_tables:
  "same_tables pb pb' \<Longrightarrow> builder_inv pb \<Longrightarrow> builder_inv pb'"
  by (simp add: same_tables_def builder_inv_def string_inv_def function_inv_def location_inv_def)

lemma builder_inv_SetSampleTypes:
  "builder_inv pb \<Longrightarrow> builder_inv (SetSampleTypes pb types)"
proof (induction types arbitrary: pb)
  case Nil
  then show ?case by simp
next
  case (Cons tu types)
  obtain t u where tu: "tu = (t, u)" by (cases tu)
  let ?pb1 = "snd (AddString pb t)"
  let ?pb2 = "snd (AddString ?pb1 u)"
  let ?pb3 = "?pb2\<lparr>profile := (profile ?pb2)\<lparr>SampleType :=
              SampleType (profile ?pb2) @ [\<lparr>vt_Type = fst (AddString pb t), vt_Unit = fst (AddString ?pb1 u)\<rparr>]\<rparr>\<rparr>"
  have "builder_inv ?pb2" using Cons.prems by (intro builder_inv_AddString)
  then have "builder_inv ?pb3"
    by (rule builder_inv_same_tables[rotated]) (simp add: same_tables_def)
  then have "builder_inv (SetSampleTypes ?pb3 types)"
    by (rule Cons.IH)
  then show ?case by (simp add: tu split_beta)
qed

lemma builder_inv_SetPeriodType:
  assumes "builder_inv pb"
  shows "builder_inv (SetPeriodType pb t u)"
proof -
  have "builder_inv (snd (AddString (snd (AddString pb t)) u))"
    using assms by (intro builder_inv_AddString)
  then show ?thesis
    unfolding SetPeriodType_def split_beta Let_def
    by (rule builder_inv_same_tables[rotated]) (simp add: same_tables_def)
qed

lemma builder_inv_apply_op: "builder_inv pb \<Longrightarrow> builder_inv (apply_op pb op)"
  by (cases op)
     (simp_all add: builder_inv_AddString GetOrCreateFunction_eq GetOrCreateLocation_eq
        builder_inv_GetOrCreateFunction_locked builder_inv_GetOrCreateLocation_locked
        builder_inv_SetSampleTypes builder_inv_SetPeriodType)

lemma builder_inv_run_ops: "builder_inv pb \<Longrightarrow> builder_inv (run_ops pb ops)"
  unfolding run_ops_def
  by (induction ops arbitrary: pb) (simp_all add: builder_inv_apply_op)

lemma run_ops_append: "run_ops pb (ops @ ops') = run_ops (run_ops pb ops) ops'"
  by (simp add: run_ops_def)

lemma extends_refl: "extends pb pb"
  by (simp add: extends_def)

lemma extends_trans: "extends a b \<Longrightarrow> extends b c \<Longrightarrow> extends a c"
  unfolding extends_def by (meson prefix_order.order_trans)

lemma extends_addStringLocked: "extends pb (snd (addStringLocked pb s))"
  by (simp add: extends_def addStringLocked_frame addStringLocked_prefix)

lemma extends_createFunction: "extends pb (createFunction pb key name filename fid)"
proof -
  let ?pb1 = "snd (addStringLocked pb name)"
  let ?pb2 = "snd (addStringLocked ?pb1 name)"
  let ?pb3 = "snd (addStringLocked ?pb2 filename)"
  have "extends pb ?pb3"
    by (meson extends_addStringLocked extends_trans)
  then show ?thesis
    by (simp add: createFunction_def split_beta Let_def extends_def)
qed

lemma extends_GetOrCreateFunction: "extends pb (snd (GetOrCreateFunction pb n f))"
  by (simp add: GetOrCreateFunction_eq GetOrCreateFunction_locked_def Let_def extends_refl
      extends_createFunction split: option.splits)

lemma extends_GetOrCreateLocation: "extends pb (snd (GetOrCreateLocation pb n f))"
proof -
  have *: "extends pb pb1 \<Longrightarrow> extends pb (pb1\<lparr>profile := (profile pb1)\<lparr>Location := Location (profile pb1) @ [loc]\<rparr>,
                        locationIndex := li\<rparr>)" for pb1 loc li
    by (auto simp: extends_def prefix_def)
  show ?thesis
    unfolding GetOrCreateLocation_eq GetOrCreateLocation_locked_def Let_def
    by (auto simp: extends_refl split_beta split: option.splits intro!: * extends_createFunction)
qed

lemma extends_AddString: "extends pb (snd (AddString pb s))"
  by (simp add: AddString_eq extends_addStringLocked)

lemma extends_SetSampleTypes: "extends pb (SetSampleTypes pb types)"
proof (induction types arbitrary: pb)
  case Nil
  then show ?case by (simp add: extends_refl)
next
  case (Cons tu types)
  obtain t u where tu: "tu = (t, u)" by (cases tu)
  let ?pb1 = "snd (AddString pb t)"
  let ?pb2 = "snd (AddString ?pb1 u)"
  let ?pb3 = "?pb2\<lparr>profile := (profile ?pb2)\<lparr>SampleType :=
              SampleType (profile ?pb2) @ [\<lparr>vt_Type = fst (AddString pb t), vt_Unit = fst (AddString ?pb1 u)\<rparr>]\<rparr>\<rparr>"
  have "extends pb ?pb2" by (meson extends_AddString extends_trans)
  then have "extends pb ?pb3" by (simp add: extends_def)
  moreover have "extends ?pb3 (SetSampleTypes ?pb3 types)"
    by (rule Cons.IH)
  ultimately have "extends pb (SetSampleTypes ?pb3 types)" by (rule extends_trans)
  then show ?case by (simp add: tu split_beta)
qed

lemma extends_SetPeriodType: "extends pb (SetPeriodType pb t u)"
proof -
  have "extends pb (snd (AddString (snd (AddString pb t)) u))"
    by (meson extends_AddString extends_trans)
  then show ?thesis by (simp add: SetPeriodType_def split_beta Let_def extends_def)
qed

lemma extends_apply_op: "extends pb (apply_op pb op)"
  by (cases op)
     (simp_all add: extends_AddString extends_GetOrCreateFunction extends_GetOrCreateLocation
        extends_SetSampleTypes extends_SetPeriodType)

lemma extends_run_ops: "extends pb (run_ops pb ops)"
  unfolding run_ops_def
proof (induction ops arbitrary: pb)
  case Nil
  then show ?case by (simp add: extends_refl)
next
  case (Cons op ops)
  then show ?case using extends_apply_op extends_trans by fastforce
qed

lemma ids_of_inv:
  assumes "builder_inv pb"
  shows "map fn_Id (Function (profile pb)) = [1..<Suc (length (Function (profile pb)))]"
    and "map loc_Id (Location (profile pb)) = [1..<Suc (length (Location (profile pb)))]"
proof -
  have f: "function_inv pb" and l: "location_inv pb" using assms by (simp_all add: builder_inv_def)
  show "map fn_Id (Function (profile pb)) = [1..<Suc (length (Function (profile pb)))]"
    using f by (intro nth_equalityI) (simp_all add: function_inv_def Let_def del: upt_Suc)
  show "map loc_Id (Location (profile pb)) = [1..<Suc (length (Location (profile pb)))]"
    using l by (intro nth_equalityI) (simp_all add: location_inv_def Let_def del: upt_Suc)
qed

section \<open>Claims about the Builder\<close>

lemmas builder_eval =
  run_ops_def NewBuilder_def AddString_def AddString_locked_def addStringLocked_def
  GetOrCreateFunction_def GetOrCreateFunction_locked_def GetOrCreateLocation_def
  GetOrCreateLocation_locked_def createFunction_def index_key_def SetPeriodType_def
  Let_def

text \<open>
  C5.  At every point of a build (after any sequence of Builder calls on a new Builder)
  the String Table has no duplicate entry and its entry 0 is the empty string.
  \<open>AddString\<close> on a string that is in the table leaves the Builder as it is and
  returns the position of that string; on a string that is not in the table it appends
  the string, once, and returns the new position.
\<close>

theorem string_table_interning:
  "distinct (StringTable (profile (run_ops NewBuilder ops))) \<and>
   StringTable (profile (run_ops NewBuilder ops)) ! 0 = [] \<and>
   distinct (StringTable (profile (snd (AddString (run_ops NewBuilder ops) s)))) \<and>
   (if s \<in> set (StringTable (profile (run_ops NewBuilder ops)))
    then snd (AddString (run_ops NewBuilder ops) s) = run_ops NewBuilder ops \<and>
         fst (AddString (run_ops NewBuilder ops) s)
           < length (StringTable (profile (run_ops NewBuilder ops))) \<and>
         StringTable (profile (run_ops NewBuilder ops))
           ! fst (AddString (run_ops NewBuilder ops) s) = s
    else StringTable (profile (snd (AddString (run_ops NewBuilder ops) s))) =
           StringTable (profile (run_ops NewBuilder ops)) @ [s] \<and>
         fst (AddString (run_ops NewBuilder ops) s)
           = length (StringTable (profile (run_ops NewBuilder ops))))"
proof -
  let ?pb = "run_ops NewBuilder ops"
  have inv: "builder_inv ?pb" by (simp add: builder_inv_run_ops builder_inv_NewBuilder)
  then have s: "string_inv ?pb" by (simp add: builder_inv_def)
  have d: "distinct (StringTable (profile ?pb))" using s by (rule string_inv_distinct)
  have z: "StringTable (profile ?pb) ! 0 = []" using s by (simp add: string_inv_def Let_def)
  have "string_inv (snd (AddString ?pb s))"
    using s by (simp add: AddString_eq string_inv_addStringLocked)
  then have d': "distinct (StringTable (profile (snd (AddString ?pb s))))"
    by (rule string_inv_distinct)
  show ?thesis
  proof (cases "stringIndex ?pb s")
    case None
    then have "s \<notin> set (StringTable (profile ?pb))" using s by (simp add: string_inv_None)
    then show ?thesis using d d' z None by (simp add: AddString_eq addStringLocked_miss)
  next
    case (Some i)
    then have i: "i < length (StringTable (profile ?pb))" "StringTable (profile ?pb) ! i = s"
      using s by (simp_all add: string_inv_lookup)
    then have "s \<in> set (StringTable (profile ?pb))" by (metis nth_mem)
    then show ?thesis using d d' z Some i by (simp add: AddString_eq addStringLocked_hit)
  qed
qed

theorem string_table_interning_witness:
  "StringTable (profile (run_ops NewBuilder
      [OpSetSampleTypes [(''samples'', ''count'')], OpGetOrCreateLocation ''op'' ''cat'']))
     = ['''', ''samples'', ''count'', ''op'', ''cat''] \<and>
   fst (AddString (run_ops NewBuilder
      [OpSetSampleTypes [(''samples'', ''count'')], OpGetOrCreateLocation ''op'' ''cat'']) ''new'') = 5 \<and>
   distinct (StringTable (profile (snd (AddString (run_ops NewBuilder
      [OpSetSampleTypes [(''samples'', ''count'')], OpGetOrCreateLocation ''op'' ''cat'']) ''new''))))"
  using string_table_interning
          [of "[OpSetSampleTypes [(''samples'', ''count'')], OpGetOrCreateLocation ''op'' ''cat'']"
              "''new''"]
  by (simp add: builder_eval)

text \<open>
  C6.  Within one build the k-th Function created has id k and the k-th Location created
  has id k, counted from 1.  Later calls leave the Functions and Locations that exist,
  with their ids, where they are, and no id is given out twice.
\<close>

theorem ids_dense_from_one:
  "map fn_Id (Function (profile (run_ops NewBuilder ops))) =
     [1..<Suc (length (Function (profile (run_ops NewBuilder ops))))] \<and>
   map loc_Id (Location (profile (run_ops NewBuilder ops))) =
     [1..<Suc (length (Location (profile (run_ops NewBuilder ops))))] \<and>
   prefix (Function (profile (run_ops NewBuilder ops)))
          (Function (profile (run_ops NewBuilder (ops @ ops')))) \<and>
   prefix (Location (profile (run_ops NewBuilder ops)))
          (Location (profile (run_ops NewBuilder (ops @ ops')))) \<and>
   distinct (map fn_Id (Function (profile (run_ops NewBuilder (ops @ ops'))))) \<and>
   distinct (map loc_Id (Location (profile (run_ops NewBuilder (ops @ ops')))))"
proof -
  have inv: "builder_inv (run_ops NewBuilder ops)" "builder_inv (run_ops NewBuilder (ops @ ops'))"
    by (simp_all add: builder_inv_run_ops builder_inv_NewBuilder)
  have ext: "extends (run_ops NewBuilder ops) (run_ops NewBuilder (ops @ ops'))"
    by (simp add: run_ops_append extends_run_ops)
  show ?thesis
    using ids_of_inv[OF inv(1)] ids_of_inv[OF inv(2)] ext
    by (simp add: extends_def del: upt_Suc)
qed

theorem ids_dense_from_one_witness:
  "map fn_Id (Function (profile (run_ops NewBuilder
      [OpGetOrCreateFunction ''f'' ''a.py'', OpGetOrCreateLocation ''g'' ''b.py'',
       OpGetOrCreateLocation ''f'' ''a.py'', OpGetOrCreateLocation ''g'' ''b.py'']))) = [1, 2] \<and>
   map loc_Id (Location (profile (run_ops NewBuilder
      [OpGetOrCreateFunction ''f'' ''a.py'', OpGetOrCreateLocation ''g'' ''b.py'',
       OpGetOrCreateLocation ''f'' ''a.py'', OpGetOrCreateLocation ''g'' ''b.py'']))) = [1, 2] \<and>
   map (\<lambda>l. map FunctionId (loc_Line l)) (Location (profile (run_ops NewBuilder
      [OpGetOrCreateFunction ''f'' ''a.py'', OpGetOrCreateLocation ''g'' ''b.py'',
       OpGetOrCreateLocation ''f'' ''a.py'', OpGetOrCreateLocation ''g'' ''b.py'']))) = [[2], [1]]"
  using ids_dense_from_one
          [of "[OpGetOrCreateFunction ''f'' ''a.py'', OpGetOrCreateLocation ''g'' ''b.py'',
                OpGetOrCreateLocation ''f'' ''a.py'', OpGetOrCreateLocation ''g'' ''b.py'']" "[]"]
  by (simp add: builder_eval)

text \<open>
  C10.  The Builder's calls only append: whatever the Builder's state and whatever the
  sequence of calls, the String Table, the Function list and the Location list before
  the calls are prefixes of the lists after them, so every entry that existed is still
  there, at its position, with its id and its handles.
\<close>

theorem builder_append_only:
  "prefix (StringTable (profile pb)) (StringTable (profile (run_ops pb ops))) \<and>
   prefix (Function (profile pb)) (Function (profile (run_ops pb ops))) \<and>
   prefix (Location (profile pb)) (Location (profile (run_ops pb ops)))"
  using extends_run_ops[of pb ops] by (simp add: extends_def)

theorem builder_append_only_witness:
  "prefix ['''', ''f'', ''a.py'']
     (StringTable (profile (run_ops (run_ops NewBuilder [OpGetOrCreateFunction ''f'' ''a.py''])
        [OpGetOrCreateLocation ''g'' ''a.py'', OpAddString ''f'']))) \<and>
   StringTable (profile (run_ops (run_ops NewBuilder [OpGetOrCreateFunction ''f'' ''a.py''])
        [OpGetOrCreateLocation ''g'' ''a.py'', OpAddString ''f''])) = ['''', ''f'', ''a.py'', ''g'']"
  using builder_append_only
          [of "run_ops NewBuilder [OpGetOrCreateFunction ''f'' ''a.py'']"
              "[OpGetOrCreateLocation ''g'' ''a.py'', OpAddString ''f'']"]
  by (simp add: builder_eval)

section \<open>The conversion loop and its summary\<close>

lemma processLoop_timeNs:
  "map ss_timeNs (processLoop rt stack events) = map (\<lambda>e. durNs rt (Dur e)) events"
  by (induction events arbitrary: stack) (simp_all add: Let_def emit_def durNs_def)

lemma ProcessThreadEvents_timeNs:
  "map ss_timeNs (ProcessThreadEvents rt events) = map (\<lambda>e. durNs rt (Dur e)) events"
  by (simp add: ProcessThreadEvents_def processLoop_timeNs)

lemma update_append_group:
  assumes "map_of m k = Some old \<or> (map_of m k = None \<and> old = [])"
  shows "mset (concat (map snd (AList.update k (old @ [x]) m)))
       = add_mset x (mset (concat (map snd m)))"
  using assms
  by (induction m) (auto split: if_splits)

lemma groupByThread_mset:
  "mset (concat (map snd (groupByThread rt m es)))
   = mset (concat (map snd m)) + mset (map withEnd (filter (\<lambda>e. Ph e = ''X'' \<and> 0 < Dur e) es))"
proof (induction es arbitrary: m)
  case Nil
  then show ?case by simp
next
  case (Cons e es)
  show ?case
  proof (cases "Ph e \<noteq> ''X'' \<or> Dur e \<le> 0")
    case True
    then show ?thesis using Cons.IH[of m] by (auto simp: not_less)
  next
    case False
    let ?tid = "getTid rt (Tid e)"
    let ?old = "case map_of m ?tid of None \<Rightarrow> [] | Some evs \<Rightarrow> evs"
    have "map_of m ?tid = Some ?old \<or> (map_of m ?tid = None \<and> ?old = [])"
      by (cases "map_of m ?tid") simp_all
    then have "mset (concat (map snd (AList.update ?tid (?old @ [withEnd e]) m)))
       = add_mset (withEnd e) (mset (concat (map snd m)))"
      by (rule update_append_group)
    moreover have "Ph e = ''X''" "\<not> Dur e \<le> 0" "0 < Dur e" using False by auto
    ultimately show ?thesis
      using Cons.IH[of "AList.update ?tid (?old @ [withEnd e]) m"]
      by (simp add: Let_def)
  qed
qed

lemma interleaving_mset:
  "interleaving qs xs \<Longrightarrow> mset xs = mset (concat qs)"
proof (induction rule: interleaving.induct)
  case (closed qs)
  then show ?case by (induction qs) auto
next
  case (receive i qs x q xs)
  have "i < length qs \<Longrightarrow> qs ! i = x # q \<Longrightarrow>
        mset (concat qs) = add_mset x (mset (concat (qs[i := q])))" for qs :: "'a list list" and i
  proof (induction qs arbitrary: i)
    case Nil
    then show ?case by simp
  next
    case (Cons a qs)
    then show ?case by (cases i) auto
  qed
  then show ?case using receive by simp
qed

lemma GetOrCreateLocation_hit:
  "locationIndex pb (index_key n c) = Some lid \<Longrightarrow> GetOrCreateLocation pb n c = (lid, pb)"
  by (simp add: GetOrCreateLocation_def)

lemma appendLocation_frame:
  "locationIndex (appendLocation pb key fid) = (locationIndex pb)(key \<mapsto> length (Location (profile pb)) + 1)"
  "functionIndex (appendLocation pb key fid) = functionIndex pb"
  "stringIndex (appendLocation pb key fid) = stringIndex pb"
  "Sample (profile (appendLocation pb key fid)) = Sample (profile pb)"
  "SampleType (profile (appendLocation pb key fid)) = SampleType (profile pb)"
  "PeriodType (profile (appendLocation pb key fid)) = PeriodType (profile pb)"
  "Period (profile (appendLocation pb key fid)) = Period (profile pb)"
  "Function (profile (appendLocation pb key fid)) = Function (profile pb)"
  "StringTable (profile (appendLocation pb key fid)) = StringTable (profile pb)"
  by (simp_all add: appendLocation_def)

lemma GetOrCreateLocation_miss:
  assumes "builder_inv pb" "locationIndex pb (index_key n c) = None"
  shows "locationIndex (snd (GetOrCreateLocation pb n c))
           = (locationIndex pb)(index_key n c \<mapsto> fst (GetOrCreateLocation pb n c))"
    and "Sample (profile (snd (GetOrCreateLocation pb n c))) = Sample (profile pb)"
    and "SampleType (profile (snd (GetOrCreateLocation pb n c))) = SampleType (profile pb)"
    and "PeriodType (profile (snd (GetOrCreateLocation pb n c))) = PeriodType (profile pb)"
    and "Period (profile (snd (GetOrCreateLocation pb n c))) = Period (profile pb)"
proof -
  have s: "string_inv pb" and f: "function_inv pb"
    using assms(1) by (simp_all add: builder_inv_def)
  show "locationIndex (snd (GetOrCreateLocation pb n c))
           = (locationIndex pb)(index_key n c \<mapsto> fst (GetOrCreateLocation pb n c))"
    "Sample (profile (snd (GetOrCreateLocation pb n c))) = Sample (profile pb)"
    "SampleType (profile (snd (GetOrCreateLocation pb n c))) = SampleType (profile pb)"
    "PeriodType (profile (snd (GetOrCreateLocation pb n c))) = PeriodType (profile pb)"
    "Period (profile (snd (GetOrCreateLocation pb n c))) = Period (profile pb)"
    unfolding GetOrCreateLocation_eq GetOrCreateLocation_locked_miss[OF f assms(2)] Let_def
    by (simp_all add: appendLocation_frame createFunction_frame[OF s] split: option.splits)
qed

lemma GetOrCreateLocation_props:
  assumes inv: "builder_inv pb"
  shows "builder_inv (snd (GetOrCreateLocation pb n c))"
    and "locationIndex (snd (GetOrCreateLocation pb n c)) (index_key n c)
           = Some (fst (GetOrCreateLocation pb n c))"
    and "locationIndex pb \<subseteq>\<^sub>m locationIndex (snd (GetOrCreateLocation pb n c))"
    and "Sample (profile (snd (GetOrCreateLocation pb n c))) = Sample (profile pb)"
    and "SampleType (profile (snd (GetOrCreateLocation pb n c))) = SampleType (profile pb)"
    and "PeriodType (profile (snd (GetOrCreateLocation pb n c))) = PeriodType (profile pb)"
    and "Period (profile (snd (GetOrCreateLocation pb n c))) = Period (profile pb)"
proof -
  show "builder_inv (snd (GetOrCreateLocation pb n c))"
    using inv by (simp add: GetOrCreateLocation_eq builder_inv_GetOrCreateLocation_locked)
  show "locationIndex (snd (GetOrCreateLocation pb n c)) (index_key n c)
           = Some (fst (GetOrCreateLocation pb n c))"
    by (cases "locationIndex pb (index_key n c)")
       (simp_all add: GetOrCreateLocation_hit GetOrCreateLocation_miss[OF inv])
  show "locationIndex pb \<subseteq>\<^sub>m locationIndex (snd (GetOrCreateLocation pb n c))"
    by (cases "locationIndex pb (index_key n c)")
       (auto simp: GetOrCreateLocation_hit GetOrCreateLocation_miss[OF inv] map_le_def)
  show "Sample (profile (snd (GetOrCreateLocation pb n c))) = Sample (profile pb)"
    by (cases "locationIndex pb (index_key n c)")
       (simp_all add: GetOrCreateLocation_hit GetOrCreateLocation_miss[OF inv])
  show "SampleType (profile (snd (GetOrCreateLocation pb n c))) = SampleType (profile pb)"
    by (cases "locationIndex pb (index_key n c)")
       (simp_all add: GetOrCreateLocation_hit GetOrCreateLocation_miss[OF inv])
  show "PeriodType (profile (snd (GetOrCreateLocation pb n c))) = PeriodType (profile pb)"
    by (cases "locationIndex pb (index_key n c)")
       (simp_all add: GetOrCreateLocation_hit GetOrCreateLocation_miss[OF inv])
  show "Period (profile (snd (GetOrCreateLocation pb n c))) = Period (profile pb)"
    by (cases "locationIndex pb (index_key n c)")
       (simp_all add: GetOrCreateLocation_hit GetOrCreateLocation_miss[OF inv])
qed

lemma location_handle_resolved:
  "resolved pb fr \<Longrightarrow> locationIndex pb (index_key (fst fr) (snd fr)) = Some (location_handle pb fr)"
  by (auto simp: resolved_def location_handle_def GetOrCreateLocation_hit)

lemma resolved_mono:
  "locationIndex pb \<subseteq>\<^sub>m locationIndex pb' \<Longrightarrow> resolved pb fr \<Longrightarrow>
   resolved pb' fr \<and> location_handle pb' fr = location_handle pb fr"
  unfolding resolved_def location_handle_def map_le_def
  by (metis GetOrCreateLocation_hit domIff fst_conv not_None_eq)

lemma locationLoop_all:
  "builder_inv pb \<Longrightarrow>
     builder_inv (snd (locationLoop pb frs)) \<and>
     locationIndex pb \<subseteq>\<^sub>m locationIndex (snd (locationLoop pb frs)) \<and>
     (\<forall>fr \<in> set frs. resolved (snd (locationLoop pb frs)) fr) \<and>
     fst (locationLoop pb frs) = rev (map (location_handle (snd (locationLoop pb frs))) frs) \<and>
     same_meta pb (snd (locationLoop pb frs))"
proof (induction frs arbitrary: pb)
  case Nil
  then show ?case by (simp add: same_meta_def)
next
  case (Cons fr frs)
  obtain n c where fr: "fr = (n, c)" by (cases fr)
  let ?pb1 = "snd (GetOrCreateLocation pb n c)"
  let ?pb2 = "snd (locationLoop ?pb1 frs)"
  have eq: "locationLoop pb (fr # frs)
      = (fst (locationLoop ?pb1 frs) @ [fst (GetOrCreateLocation pb n c)], ?pb2)"
    by (simp add: fr split_beta)
  note g = GetOrCreateLocation_props[OF Cons.prems, of n c]
  note ih = Cons.IH[OF g(1)]
  have le: "locationIndex pb \<subseteq>\<^sub>m locationIndex ?pb2"
    using g(3) ih by (meson map_le_trans)
  have r1: "resolved ?pb1 fr" using g(2) by (simp add: resolved_def fr)
  have r2: "resolved ?pb2 fr" "location_handle ?pb2 fr = location_handle ?pb1 fr"
    using resolved_mono[OF _ r1, of ?pb2] ih by simp_all
  have "location_handle ?pb1 fr = fst (GetOrCreateLocation pb n c)"
    using location_handle_resolved[OF r1] g(2) by (simp add: fr)
  then have h: "location_handle ?pb2 fr = fst (GetOrCreateLocation pb n c)"
    using r2 by simp
  have meta: "same_meta pb ?pb2"
    using ih g(4-7) by (simp add: same_meta_def)
  show ?case
    unfolding eq using ih le r2(1) h meta by simp
qed

lemmas locationLoop_props = locationLoop_all[THEN conjunct1]
  locationLoop_all[THEN conjunct2, THEN conjunct1]
  locationLoop_all[THEN conjunct2, THEN conjunct2, THEN conjunct1]
  locationLoop_all[THEN conjunct2, THEN conjunct2, THEN conjunct2, THEN conjunct1]
  locationLoop_all[THEN conjunct2, THEN conjunct2, THEN conjunct2, THEN conjunct2]

lemma update_map_values:
  "AList.update k (f v) (map (\<lambda>(k, v). (k, f v)) xs) = map (\<lambda>(k, v). (k, f v)) (AList.update k v xs)"
  by (induction xs) auto

lemma set_update_cases:
  "x \<in> set (AList.update k v xs) \<Longrightarrow> x = (k, v) \<or> x \<in> set xs"
  by (induction xs) (auto split: if_splits)

lemma stored_mono:
  assumes "locationIndex pb \<subseteq>\<^sub>m locationIndex pb'"
    and "\<forall>(k, fr, cnt, t) \<in> set am. \<forall>f \<in> set fr. resolved pb f"
  shows "map (\<lambda>(k, v). (k, stored pb' v)) am = map (\<lambda>(k, v). (k, stored pb v)) am"
proof (rule map_cong[OF refl])
  fix x assume x: "x \<in> set am"
  obtain k fr cnt t where xe: "x = (k, fr, cnt, t)" by (cases x) auto
  have "\<forall>f \<in> set fr. resolved pb f" using assms(2) x xe by auto
  then have "map (location_handle pb') fr = map (location_handle pb) fr"
    using resolved_mono[OF assms(1)] by simp
  then show "(case x of (k, v) \<Rightarrow> (k, stored pb' v)) = (case x of (k, v) \<Rightarrow> (k, stored pb v))"
    by (simp add: xe stored_def)
qed

lemma aggregate_step:
  assumes inv: "builder_inv pb" and rel: "agg_rel pb m am"
  shows "builder_inv (fst (aggregate (pb, m) s)) \<and>
         agg_rel (fst (aggregate (pb, m) s)) (snd (aggregate (pb, m) s)) (agg_step am s) \<and>
         locationIndex pb \<subseteq>\<^sub>m locationIndex (fst (aggregate (pb, m) s)) \<and>
         same_meta pb (fst (aggregate (pb, m) s))"
proof -
  let ?key = "sampleKey (ss_stack s)"
  have m: "m = map (\<lambda>(k, v). (k, stored pb v)) am"
    and res: "\<forall>(k, fr, cnt, t) \<in> set am. \<forall>f \<in> set fr. resolved pb f"
    using rel by (simp_all add: agg_rel_def)
  have look: "map_of m ?key = map_option (stored pb) (map_of am ?key)"
    unfolding m by (simp add: map_of_map)
  show ?thesis
  proof (cases "map_of am ?key")
    case None
    let ?pb' = "snd (locationLoop pb (zip (ss_names s) (ss_cats s)))"
    note l = locationLoop_props[OF inv, of "zip (ss_names s) (ss_cats s)"]
    have agg: "aggregate (pb, m) s =
        (?pb', AList.update ?key \<lparr>sd_locationIds = fst (locationLoop pb (zip (ss_names s) (ss_cats s))),
                 sd_count = 1, sd_timeNs = ss_timeNs s\<rparr> m)"
      using None look by (simp add: aggregate.simps Let_def split_beta)
    have st: "\<lparr>sd_locationIds = fst (locationLoop pb (zip (ss_names s) (ss_cats s))),
                 sd_count = 1, sd_timeNs = ss_timeNs s\<rparr> = stored ?pb' (frames s, 1, ss_timeNs s)"
      using l(4) by (simp add: stored_def frames_def)
    have m': "m = map (\<lambda>(k, v). (k, stored ?pb' v)) am"
      unfolding m using stored_mono[OF l(2) res] by simp
    have res': "\<forall>(k, fr, cnt, t) \<in> set (AList.update ?key (frames s, 1, ss_timeNs s) am).
        \<forall>f \<in> set fr. resolved ?pb' f"
    proof (clarify)
      fix k fr cnt t f
      assume "(k, fr, cnt, t) \<in> set (AList.update ?key (frames s, 1, ss_timeNs s) am)" "f \<in> set fr"
      then consider "fr = frames s" | "(k, fr, cnt, t) \<in> set am"
        using set_update_cases by fastforce
      then show "resolved ?pb' f"
      proof cases
        case 1
        then show ?thesis using l(3) \<open>f \<in> set fr\<close> by (simp add: frames_def)
      next
        case 2
        then have "resolved pb f" using res \<open>f \<in> set fr\<close> by auto
        then show ?thesis using resolved_mono[OF l(2)] by blast
      qed
    qed
    have "agg_rel ?pb' (AList.update ?key (stored ?pb' (frames s, 1, ss_timeNs s)) m)
            (AList.update ?key (frames s, 1, ss_timeNs s) am)"
      unfolding agg_rel_def using res' by (subst m') (simp add: update_map_values)
    then show ?thesis
      using None l(1,2,5) by (simp add: agg st agg_step_def)
  next
    case (Some v)
    obtain fr cnt t where v: "v = (fr, cnt, t)" by (cases v) auto
    have agg: "aggregate (pb, m) s =
        (pb, AList.update ?key (stored pb (fr, cnt + 1, t + ss_timeNs s)) m)"
      using Some look by (simp add: aggregate.simps Let_def v stored_def)
    have mem: "(?key, fr, cnt, t) \<in> set am"
      using Some v by (simp add: map_of_SomeD)
    have res': "\<forall>(k, fr', cnt', t') \<in> set (AList.update ?key (fr, cnt + 1, t + ss_timeNs s) am).
        \<forall>f \<in> set fr'. resolved pb f"
    proof (clarify)
      fix k fr' cnt' t' f
      assume "(k, fr', cnt', t') \<in> set (AList.update ?key (fr, cnt + 1, t + ss_timeNs s) am)" "f \<in> set fr'"
      then consider "fr' = fr" | "(k, fr', cnt', t') \<in> set am"
        using set_update_cases by fastforce
      then show "resolved pb f"
      proof cases
        case 1
        then show ?thesis using res mem \<open>f \<in> set fr'\<close> by auto
      next
        case 2
        then show ?thesis using res \<open>f \<in> set fr'\<close> by auto
      qed
    qed
    have "agg_rel pb (AList.update ?key (stored pb (fr, cnt + 1, t + ss_timeNs s)) m)
            (AList.update ?key (fr, cnt + 1, t + ss_timeNs s) am)"
      unfolding agg_rel_def using res' by (subst m) (simp add: update_map_values)
    then show ?thesis
      using Some inv by (simp add: agg agg_step_def v same_meta_def)
  qed
qed

lemma same_meta_trans: "same_meta a b \<Longrightarrow> same_meta b c \<Longrightarrow> same_meta a c"
  by (simp add: same_meta_def)

lemma aggregate_fold:
  assumes "builder_inv pb" "agg_rel pb m am"
  shows "builder_inv (fst (foldl aggregate (pb, m) arr)) \<and>
         agg_rel (fst (foldl aggregate (pb, m) arr)) (snd (foldl aggregate (pb, m) arr))
                 (foldl agg_step am arr) \<and>
         locationIndex pb \<subseteq>\<^sub>m locationIndex (fst (foldl aggregate (pb, m) arr)) \<and>
         same_meta pb (fst (foldl aggregate (pb, m) arr))"
  using assms
proof (induction arr arbitrary: pb m am)
  case Nil
  then show ?case by (simp add: same_meta_def)
next
  case (Cons s arr)
  note st = aggregate_step[OF Cons.prems, of s]
  obtain pb1 m1 where a: "aggregate (pb, m) s = (pb1, m1)" by (cases "aggregate (pb, m) s")
  have ih: "builder_inv (fst (foldl aggregate (pb1, m1) arr)) \<and>
         agg_rel (fst (foldl aggregate (pb1, m1) arr)) (snd (foldl aggregate (pb1, m1) arr))
                 (foldl agg_step (agg_step am s) arr) \<and>
         locationIndex pb1 \<subseteq>\<^sub>m locationIndex (fst (foldl aggregate (pb1, m1) arr)) \<and>
         same_meta pb1 (fst (foldl aggregate (pb1, m1) arr))"
    using st a by (intro Cons.IH) simp_all
  show ?case
    using st ih a by (auto intro: map_le_trans same_meta_trans)
qed

lemma tsum_update_Some:
  "map_of am k = Some (fr, cnt, t) \<Longrightarrow>
   tsum (AList.update k (fr', cnt', t') am) = tsum am - t + t'"
  unfolding tsum_def by (induction am) (auto split: if_splits)

lemma tsum_update_None:
  "map_of am k = None \<Longrightarrow> tsum (AList.update k (fr', cnt', t') am) = tsum am + t'"
  unfolding tsum_def by (induction am) (auto split: if_splits)

lemma tsum_agg_step: "tsum (agg_step am s) = tsum am + ss_timeNs s"
  by (cases "map_of am (sampleKey (ss_stack s))")
     (auto simp: agg_step_def Let_def tsum_update_Some tsum_update_None)

lemma tsum_fold: "tsum (foldl agg_step am arr) = tsum am + sum_list (map ss_timeNs arr)"
  by (induction arr arbitrary: am) (simp_all add: tsum_agg_step add.assoc)

lemma tsum_Nil: "tsum [] = 0"
  by (simp add: tsum_def)

lemma tsum_agg: "tsum (agg arr) = sum_list (map ss_timeNs arr)"
  by (simp add: agg_def tsum_fold tsum_Nil)

lemma tsum_stored:
  "sum_list (map (\<lambda>e. sd_timeNs (snd e)) (map (\<lambda>(k, v). (k, stored pb v)) am)) = tsum am"
  unfolding tsum_def by (induction am) (auto simp: stored_def)

lemma sum_list_map_mset:
  fixes f :: "'a \<Rightarrow> 'b::comm_monoid_add"
  assumes "mset xs = mset ys"
  shows "sum_list (map f xs) = sum_list (map f ys)"
proof -
  have "mset (map f xs) = mset (map f ys)" using assms by simp
  then have "sum_mset (mset (map f xs)) = sum_mset (mset (map f ys))" by (rule arg_cong)
  then show ?thesis by (simp only: sum_mset_sum_list)
qed

lemma sum_list_map_image_mset:
  fixes f :: "'a \<Rightarrow> 'b::comm_monoid_add"
  shows "sum_mset (image_mset f (mset xs)) = sum_list (map f xs)"
proof -
  have "sum_mset (mset (map f xs)) = sum_list (map f xs)" by (simp only: sum_mset_sum_list)
  then show ?thesis by simp
qed

lemma builder_inv_setupBuilder: "builder_inv setupBuilder"
proof -
  let ?pb = "SetPeriodType (SetSampleTypes NewBuilder [(''samples'', ''count''), (''time'', ''nanoseconds'')])
                ''cpu'' ''nanoseconds''"
  have "builder_inv ?pb"
    by (intro builder_inv_SetPeriodType builder_inv_SetSampleTypes builder_inv_NewBuilder)
  then show ?thesis
    unfolding setupBuilder_def Let_def
    by (rule builder_inv_same_tables[rotated]) (simp add: same_tables_def)
qed

lemma Sample_SetSampleTypes: "Sample (profile (SetSampleTypes pb types)) = Sample (profile pb)"
proof (induction types arbitrary: pb)
  case Nil
  then show ?case by simp
next
  case (Cons tu types)
  obtain t u where tu: "tu = (t, u)" by (cases tu)
  show ?case by (simp add: tu split_beta Cons.IH AddString_frame)
qed

lemma Sample_setupBuilder: "Sample (profile setupBuilder) = []"
  by (simp add: setupBuilder_def Let_def SetPeriodType_def split_beta AddString_frame
      Sample_SetSampleTypes NewBuilder_def)

lemma ConvertTrace_builder_props:
  "builder_inv (fst (ConvertTrace_builder rt traceData opts)) \<and>
   agg_rel (fst (ConvertTrace_builder rt traceData opts)) (snd (ConvertTrace_builder rt traceData opts))
      (agg (chan_order rt (workerSamples rt traceData))) \<and>
   locationIndex setupBuilder \<subseteq>\<^sub>m locationIndex (fst (ConvertTrace_builder rt traceData opts)) \<and>
   same_meta setupBuilder (fst (ConvertTrace_builder rt traceData opts))"
  unfolding ConvertTrace_builder_def agg_def
  by (rule aggregate_fold[OF builder_inv_setupBuilder]) (simp add: agg_rel_def)

lemma ConvertTrace_Sample:
  "Sample (ConvertTrace rt traceData opts)
     = map toSample (map_range rt (snd (ConvertTrace_builder rt traceData opts)))"
  using ConvertTrace_builder_props[of rt traceData opts]
  by (simp add: ConvertTrace_def split_beta Let_def Build_def same_meta_def Sample_setupBuilder)

lemma workerSamples_timeNs:
  assumes "runtime_ok rt"
  shows "mset (map ss_timeNs (concat (workerSamples rt traceData)))
       = image_mset (\<lambda>e. durNs rt (Dur e))
           (mset (filter (\<lambda>e. Ph e = ''X'' \<and> 0 < Dur e) (TraceEvents traceData)))"
proof -
  have srt: "\<And>events. mset (sort_Slice rt events) = mset events"
    using assms by (simp add: runtime_ok_def)
  have one: "mset (map ss_timeNs (ProcessThreadEvents rt (sort_Slice rt events)))
      = image_mset (\<lambda>e. durNs rt (Dur e)) (mset events)" for events
    by (simp add: ProcessThreadEvents_timeNs srt)
  have all: "mset (map ss_timeNs (concat (map (\<lambda>(tid, events).
        ProcessThreadEvents rt (sort_Slice rt events)) groups)))
      = image_mset (\<lambda>e. durNs rt (Dur e)) (mset (concat (map snd groups)))" for groups
  proof (induction groups)
    case Nil
    then show ?case by simp
  next
    case (Cons g groups)
    obtain tid events where g: "g = (tid, events)" by (cases g)
    show ?case using Cons one[of events] by (simp add: g)
  qed
  have "mset (concat (map snd (groupByThread rt [] (TraceEvents traceData))))
      = mset (map withEnd (filter (\<lambda>e. Ph e = ''X'' \<and> 0 < Dur e) (TraceEvents traceData)))"
    by (simp add: groupByThread_mset)
  then show ?thesis
    unfolding workerSamples_def all
    by (simp add: image_mset.compositionality comp_def withEnd_def)
qed

lemma interleaving_Nil_Cons: "interleaving qs xs \<Longrightarrow> interleaving ([] # qs) xs"
proof (induction rule: interleaving.induct)
  case (closed qs)
  then show ?case by (simp add: interleaving.closed)
next
  case (receive i qs x q xs)
  have "Suc i < length ([] # qs)" "([] # qs) ! Suc i = x # q"
    "interleaving (([] # qs)[Suc i := q]) xs"
    using receive by simp_all
  then show ?case by (rule interleaving.receive)
qed

lemma interleaving_concat: "interleaving qs (concat qs)"
proof (induction qs)
  case Nil
  then show ?case by (simp add: interleaving.closed)
next
  case (Cons q qs)
  show ?case
  proof (induction q)
    case Nil
    then show ?case using Cons by (simp add: interleaving_Nil_Cons)
  next
    case (Cons x q)
    have "0 < length ((x # q) # qs)" "((x # q) # qs) ! 0 = x # q"
      "interleaving (((x # q) # qs)[0 := q]) (concat (q # qs))"
      using Cons by simp_all
    then have "interleaving ((x # q) # qs) (x # concat (q # qs))"
      by (rule interleaving.receive)
    then show ?case by simp
  qed
qed

lemma example_runtime_ok: "runtime_ok example_runtime"
  by (simp add: runtime_ok_def example_runtime_def interleaving_concat)

lemma example_profile:
  "ConvertTrace example_runtime example_trace \<lparr>NumWorkers = 2\<rparr> =
   \<lparr>SampleType = [\<lparr>vt_Type = 1, vt_Unit = 2\<rparr>, \<lparr>vt_Type = 3, vt_Unit = 4\<rparr>],
    Sample =
      [\<lparr>LocationId = [1], Value = [1, 50000]\<rparr>,
       \<lparr>LocationId = [2, 1], Value = [1, 30000]\<rparr>,
       \<lparr>LocationId = [3], Value = [1, 20000]\<rparr>],
    Location =
      [\<lparr>loc_Id = 1, loc_Line = [\<lparr>FunctionId = 1, line_Line = 0\<rparr>]\<rparr>,
       \<lparr>loc_Id = 2, loc_Line = [\<lparr>FunctionId = 2, line_Line = 0\<rparr>]\<rparr>,
       \<lparr>loc_Id = 3, loc_Line = [\<lparr>FunctionId = 3, line_Line = 0\<rparr>]\<rparr>],
    Function =
      [\<lparr>fn_Id = 1, fn_Name = 6, fn_SystemName = 6, fn_Filename = 7\<rparr>,
       \<lparr>fn_Id = 2, fn_Name = 8, fn_SystemName = 8, fn_Filename = 7\<rparr>,
       \<lparr>fn_Id = 3, fn_Name = 9, fn_SystemName = 9, fn_Filename = 10\<rparr>],
    StringTable =
      [[], ''samples'', ''count'', ''time'', ''nanoseconds'', ''cpu'',
       ''op1'', ''cat1'', ''op2'', ''op3'', ''cat2''],
    TimeNanos = 0, DurationNanos = 0,
    PeriodType = Some \<lparr>vt_Type = 5, vt_Unit = 4\<rparr>, Period = 1000000\<rparr>"
  by code_simp

section \<open>The stack of active events\<close>


lemma processLoop_length: "length (processLoop rt stack es) = length es"
  by (induction es arbitrary: stack) (simp_all add: Let_def)















text \<open>
  The threads that \<open>ConvertTrace\<close> hands to \<open>ProcessThreadEvents\<close> are sorted by
  start time, and none of their events ends before it starts when adding a positive
  duration to a timestamp does not give a smaller one, as is the case for \<open>float64\<close>.
\<close>

lemma thread_sorted_ends_after_starts:
  fixes rt :: "('f::{linorder,zero,plus}) go_runtime"
  assumes ok: "runtime_ok rt" and add: "\<And>t d :: 'f. 0 < d \<Longrightarrow> t \<le> t + d"
    and g: "(tid, evs) \<in> set (groupByThread rt [] (TraceEvents tr))"
  shows "sorted (map Ts (sort_Slice rt evs))" and "ends_after_starts (sort_Slice rt evs)"
proof -
  show "sorted (map Ts (sort_Slice rt evs))" using ok by (simp add: runtime_ok_def)
  have "mset (sort_Slice rt evs) = mset evs" using ok by (simp add: runtime_ok_def)
  then have se: "set (sort_Slice rt evs) = set evs" by (rule mset_eq_setD)
  have all: "set (concat (map snd (groupByThread rt [] (TraceEvents tr))))
      = set (map withEnd (filter (\<lambda>e. Ph e = ''X'' \<and> 0 < Dur e) (TraceEvents tr)))"
    by (rule mset_eq_setD) (simp add: groupByThread_mset)
  have "evs \<in> set (map snd (groupByThread rt [] (TraceEvents tr)))"
    using g by (metis image_eqI set_map snd_conv)
  then have sub: "set evs \<subseteq> set (concat (map snd (groupByThread rt [] (TraceEvents tr))))"
    by auto
  have "Ts e \<le> End e" if e: "e \<in> set evs" for e
  proof -
    have "e \<in> set (map withEnd (filter (\<lambda>e. Ph e = ''X'' \<and> 0 < Dur e) (TraceEvents tr)))"
      using e sub all by blast
    then obtain e0 where e0: "e = withEnd e0" "0 < Dur e0" by auto
    have "Ts e0 \<le> Ts e0 + Dur e0" using e0(2) by (rule add)
    then show ?thesis by (simp add: e0(1) withEnd_def)
  qed
  then show "ends_after_starts (sort_Slice rt evs)" by (simp add: ends_after_starts_def se)
qed
section \<open>What the aggregation stores\<close>

lemma map_of_agg_step:
  "map_of (agg_step am s) k =
     (if key_of s = k
      then (case map_of am k of Some (fr, cnt, t) \<Rightarrow> Some (fr, cnt + 1, t + ss_timeNs s)
            | None \<Rightarrow> Some (frames s, 1, ss_timeNs s))
      else map_of am k)"
  by (auto simp: agg_step_def key_of_def Let_def update_conv' split: option.splits)

lemma map_of_fold_agg:
  "map_of (foldl agg_step am arr) k =
     (case map_of am k of
        Some (fr, cnt, t) \<Rightarrow>
          Some (fr, cnt + of_nat (length (filter (\<lambda>s. key_of s = k) arr)),
                t + sum_list (map ss_timeNs (filter (\<lambda>s. key_of s = k) arr)))
      | None \<Rightarrow>
          (case find (\<lambda>s. key_of s = k) arr of
             None \<Rightarrow> None
           | Some s \<Rightarrow>
               Some (frames s, of_nat (length (filter (\<lambda>s. key_of s = k) arr)),
                     sum_list (map ss_timeNs (filter (\<lambda>s. key_of s = k) arr)))))"
proof (induction arr arbitrary: am)
  case Nil
  then show ?case by (simp split: option.splits)
next
  case (Cons s arr)
  note ih = Cons.IH[of "agg_step am s"]
  show ?case
  proof (cases "key_of s = k")
    case True
    show ?thesis
    proof (cases "map_of am k")
      case None
      have "map_of (agg_step am s) k = Some (frames s, 1, ss_timeNs s)"
        using True None by (simp add: map_of_agg_step)
      then show ?thesis using True None by (simp add: ih split: option.splits)
    next
      case (Some v)
      obtain fr cnt t where v: "v = (fr, cnt, t)" by (cases v) auto
      have "map_of (agg_step am s) k = Some (fr, cnt + 1, t + ss_timeNs s)"
        using True Some v by (simp add: map_of_agg_step)
      then show ?thesis using True Some v by (simp add: ih algebra_simps split: option.splits)
    qed
  next
    case False
    have "map_of (agg_step am s) k = map_of am k"
      using False by (simp add: map_of_agg_step)
    then show ?thesis using False
      by (cases "map_of am k") (auto simp: ih split: option.splits)
  qed
qed

lemma map_of_agg:
  "map_of (agg arr) k =
     (case find (\<lambda>s. key_of s = k) arr of
        None \<Rightarrow> None
      | Some s \<Rightarrow>
          Some (frames s, of_nat (length (filter (\<lambda>s. key_of s = k) arr)),
                sum_list (map ss_timeNs (filter (\<lambda>s. key_of s = k) arr))))"
  by (simp add: agg_def map_of_fold_agg)

lemma distinct_agg_step: "distinct (map fst am) \<Longrightarrow> distinct (map fst (agg_step am s))"
  by (simp add: agg_step_def Let_def distinct_update split: option.splits prod.splits)

lemma distinct_fold_agg: "distinct (map fst am) \<Longrightarrow> distinct (map fst (foldl agg_step am arr))"
  by (induction arr arbitrary: am) (simp_all add: distinct_agg_step)

lemma distinct_agg: "distinct (map fst (agg arr))"
  by (simp add: agg_def distinct_fold_agg)

lemma agg_entry:
  "(k, fr, cnt, t) \<in> set (agg arr) \<longleftrightarrow>
     (\<exists>s. find (\<lambda>s. key_of s = k) arr = Some s \<and> fr = frames s \<and>
          cnt = of_nat (length (filter (\<lambda>s. key_of s = k) arr)) \<and>
          t = sum_list (map ss_timeNs (filter (\<lambda>s. key_of s = k) arr)))"
proof -
  have "(k, fr, cnt, t) \<in> set (agg arr) \<longleftrightarrow> map_of (agg arr) k = Some (fr, cnt, t)"
    using distinct_agg[of arr] by simp
  then show ?thesis by (auto simp: map_of_agg split: option.splits)
qed

lemma processLoop_emitted:
  "s \<in> set (processLoop rt stack es) \<Longrightarrow> \<exists>st e. e \<in> set es \<and> s = emit rt st e"
proof (induction es arbitrary: stack)
  case Nil
  then show ?case by simp
next
  case (Cons a es)
  then consider "s = emit rt (retainedStack stack a) a"
    | "s \<in> set (processLoop rt (retainedStack stack a @
          [\<lparr>se_event = a, se_name = Name a, se_cat = Cat a\<rparr>]) es)"
    by (auto simp: Let_def)
  then show ?case
  proof cases
    case 1
    then show ?thesis by auto
  next
    case 2
    then obtain st e where "e \<in> set es" "s = emit rt st e" using Cons.IH by blast
    then show ?thesis by auto
  qed
qed

lemma frames_emit:
  "frames (emit rt st e) = map (\<lambda>s. (se_name s, se_cat s)) st @ [(Name e, Cat e)]"
  by (simp add: frames_def emit_def zip_map_map zip_same_conv_map)

lemma workerSamples_emitted:
  "s \<in> set (concat (workerSamples rt tr)) \<Longrightarrow> \<exists>st e. s = emit rt st e"
  unfolding workerSamples_def ProcessThreadEvents_def
  using processLoop_emitted by fastforce

lemma arrivals_set:
  assumes "runtime_ok rt"
  shows "set (chan_order rt (workerSamples rt tr)) = set (concat (workerSamples rt tr))"
proof -
  have "interleaving (workerSamples rt tr) (chan_order rt (workerSamples rt tr))"
    using assms by (simp add: runtime_ok_def)
  then have "mset (chan_order rt (workerSamples rt tr)) = mset (concat (workerSamples rt tr))"
    by (rule interleaving_mset)
  then show ?thesis by (rule mset_eq_setD)
qed

lemma resolved_in_range:
  assumes "builder_inv pb" "resolved pb fr"
  shows "0 < location_handle pb fr \<and> location_handle pb fr \<le> length (Location (profile pb)) \<and>
         loc_Id (Location (profile pb) ! (location_handle pb fr - 1)) = location_handle pb fr"
proof -
  have l: "location_inv pb" using assms(1) by (simp add: builder_inv_def)
  have "locationIndex pb (index_key (fst fr) (snd fr)) = Some (location_handle pb fr)"
    using assms(2) by (rule location_handle_resolved)
  then obtain k where "k < length (Location (profile pb))" "location_handle pb fr = Suc k"
    using l unfolding location_inv_def Let_def by blast
  moreover from this have "loc_Id (Location (profile pb) ! k) = Suc k"
    using l unfolding location_inv_def Let_def by blast
  ultimately show ?thesis by simp
qed

lemma ConvertTrace_Location:
  "Location (ConvertTrace rt tr opts) = Location (profile (fst (ConvertTrace_builder rt tr opts)))"
  by (simp add: ConvertTrace_def split_beta Let_def Build_def)

lemma aggregate_repeat:
  "map_of m (sampleKey (ss_stack s)) = Some ex \<Longrightarrow>
   aggregate (pb, m) s =
     (pb, AList.update (sampleKey (ss_stack s))
            (ex\<lparr>sd_count := sd_count ex + 1, sd_timeNs := sd_timeNs ex + ss_timeNs s\<rparr>) m)"
  by (simp add: aggregate.simps)

lemma stored_sample_origin:
  assumes ok: "runtime_ok rt" and smp: "smp \<in> set (Sample (ConvertTrace rt tr opts))"
  shows "\<exists>s st e. find (\<lambda>s'. key_of s' = key_of s) (chan_order rt (workerSamples rt tr)) = Some s \<and>
           s = emit rt st e \<and>
           LocationId smp = rev (map (location_handle (fst (ConvertTrace_builder rt tr opts))) (frames s)) \<and>
           (\<forall>fr \<in> set (frames s). resolved (fst (ConvertTrace_builder rt tr opts)) fr)"
proof -
  let ?arr = "chan_order rt (workerSamples rt tr)"
  let ?pb = "fst (ConvertTrace_builder rt tr opts)"
  let ?m = "snd (ConvertTrace_builder rt tr opts)"
  note props = ConvertTrace_builder_props[of rt tr opts]
  have m: "?m = map (\<lambda>(k, v). (k, stored ?pb v)) (agg ?arr)"
    and res: "\<forall>(k, fr, cnt, t) \<in> set (agg ?arr). \<forall>f \<in> set fr. resolved ?pb f"
    using props by (simp_all add: agg_rel_def)
  have "set (map_range rt ?m) = set ?m"
    using ok by (intro mset_eq_setD) (simp add: runtime_ok_def)
  then obtain e where e: "e \<in> set ?m" "smp = toSample e"
    using smp by (auto simp: ConvertTrace_Sample)
  then obtain k fr cnt t where kv: "(k, fr, cnt, t) \<in> set (agg ?arr)" "e = (k, stored ?pb (fr, cnt, t))"
    by (subst (asm) m) auto
  obtain s where s: "find (\<lambda>s. key_of s = k) ?arr = Some s" "fr = frames s"
    using kv(1) by (auto simp: agg_entry)
  have sk: "s \<in> set ?arr" "key_of s = k"
    using s(1) by (auto simp: find_Some_iff)
  then have "s \<in> set (concat (workerSamples rt tr))" using arrivals_set[OF ok] by simp
  then obtain st ev where em: "s = emit rt st ev" using workerSamples_emitted by blast
  have "LocationId smp = rev (map (location_handle ?pb) (frames s))"
    using e(2) kv(2) s(2) by (simp add: toSample_def stored_def)
  moreover have "\<forall>f \<in> set (frames s). resolved ?pb f"
    using res kv(1) s(2) by auto
  ultimately show ?thesis using s(1) sk(2) em by blast
qed

section \<open>Keys, frames and the content of a profile\<close>

subsection \<open>The two example schedules\<close>






subsection \<open>Keys of separator-free frames are injective\<close>








subsection \<open>The frames of the emitted samples come from the kept events\<close>






subsection \<open>A Location's frame is the frame it was created for\<close>
















subsection \<open>The content is the aggregation of the arrivals\<close>







subsection \<open>What the samples of the workers depend on\<close>





subsection \<open>The examples evaluated\<close>




lemma collision_contents:
  "map (\<lambda>s. (map (frame_of (ConvertTrace example_runtime collision_trace2 \<lparr>NumWorkers = 2\<rparr>)) (LocationId s), Value s))
     (Sample (ConvertTrace example_runtime collision_trace2 \<lparr>NumWorkers = 2\<rparr>))
   = [([(''step'', ''user;forward'')], [1, 100000]),
      ([(''op'', ''cpu''), (''step'', ''user;forward'')], [2, 20000]),
      ([(''step'', ''user'')], [1, 100000])]"
  "map (\<lambda>s. (map (frame_of (ConvertTrace reversed_runtime collision_trace2 \<lparr>NumWorkers = 2\<rparr>)) (LocationId s), Value s))
     (Sample (ConvertTrace reversed_runtime collision_trace2 \<lparr>NumWorkers = 2\<rparr>))
   = [([(''step'', ''user'')], [1, 100000]),
      ([(''forward;op'', ''cpu''), (''step'', ''user'')], [2, 20000]),
      ([(''step'', ''user;forward'')], [1, 100000])]"
  by code_simp+



section \<open>The encoder and its fields\<close>

subsection \<open>Varints are read back\<close>

lemma encodeVarint_big:
  "0x80 \<le> v \<Longrightarrow> encodeVarint v = (ucast v OR 0x80) # encodeVarint (drop_bit 7 v)"
  by (subst encodeVarint.simps) simp

lemma encodeVarint_small: "v < 0x80 \<Longrightarrow> encodeVarint v = [ucast v]"
  by (subst encodeVarint.simps) (simp add: linorder_not_le[symmetric])

lemma encodeVarint_nonempty: "encodeVarint v \<noteq> []"
  by (subst encodeVarint.simps) simp

lemma low7_big: "ucast (take_bit 7 (ucast v OR 0x80 :: byte)) = (take_bit 7 v :: uint64)"
proof -
  have h: "(0x80 :: byte) = 2 ^ 7" by simp
  show ?thesis unfolding h by (rule bit_word_eqI) (auto simp: bit_simps)
qed

lemma low7: "ucast (take_bit 7 (ucast v :: byte)) = (take_bit 7 v :: uint64)"
  by (rule bit_word_eqI) (auto simp: bit_simps)

lemma continuation_big: "bit (ucast (v :: uint64) OR 0x80 :: byte) 7"
proof -
  have h: "(0x80 :: byte) = 2 ^ 7" by simp
  show ?thesis unfolding h by (simp add: bit_simps)
qed

lemma rejoin: "push_bit 7 (drop_bit 7 v) OR take_bit 7 v = (v :: uint64)"
  by (rule bit_word_eqI) (auto simp: bit_simps)

lemma small_self: 
  assumes "(v :: uint64) < 0x80"
  shows "\<not> bit (ucast v :: byte) 7" "ucast (ucast v :: byte) = v"
proof -
  have "v < 2 ^ 7" using assms by simp
  then have "v AND mask 7 = v" by (rule less_mask_eq)
  then have t: "take_bit 7 v = v" by (simp only: take_bit_eq_mask)
  have "\<not> bit (ucast (take_bit 7 v) :: byte) 7" by (simp add: bit_simps)
  then show "\<not> bit (ucast v :: byte) 7" unfolding t .
  have "ucast (ucast (take_bit 7 v) :: byte) = take_bit 7 v"
    by (rule bit_word_eqI) (auto simp: bit_simps)
  then show "ucast (ucast v :: byte) = v" unfolding t .
qed

lemma decodeVarint_encodeVarint: "decodeVarint (encodeVarint v @ rest) = Some (v, rest)"
proof (induction v rule: encodeVarint.induct)
  case (1 v)
  show ?case
  proof (cases "0x80 \<le> v")
    case True
    have "decodeVarint (encodeVarint (drop_bit 7 v) @ rest) = Some (drop_bit 7 v, rest)"
      using True by (rule 1)
    then show ?thesis
      by (simp add: encodeVarint_big[OF True] continuation_big low7_big low7 rejoin)
  next
    case False
    then have s: "v < 0x80" by simp
    show ?thesis by (simp add: encodeVarint_small[OF s] small_self[OF s])
  qed
qed

lemma length_encodeVarint_aux:
  "0 < n \<Longrightarrow> unat v < 2 ^ (7 * n) \<Longrightarrow> length (encodeVarint v) \<le> n"
proof (induction n arbitrary: v)
  case 0
  then show ?case by simp
next
  case (Suc m)
  show ?case
  proof (cases "0x80 \<le> v")
    case False
    then have "v < 0x80" by simp
    then show ?thesis by (simp add: encodeVarint_small)
  next
    case True
    then have big: "128 \<le> unat v" by (simp add: word_le_nat_alt)
    have m: "0 < m"
    proof (rule ccontr)
      assume "\<not> 0 < m"
      then have "unat v < 128" using Suc.prems(2) by simp
      then show False using big by simp
    qed
    have "unat v < 2 ^ (7 * m) * 2 ^ 7" using Suc.prems(2) by (simp add: power_add mult.commute)
    then have "unat v div 2 ^ 7 < 2 ^ (7 * m)" by (simp add: less_mult_imp_div_less)
    moreover have "unat (drop_bit 7 v) = drop_bit 7 (unat v)" by (rule unat_drop_bit_eq)
    moreover have "drop_bit 7 (unat v) = unat v div 2 ^ 7" by (rule drop_bit_eq_div)
    ultimately have "unat (drop_bit 7 v) < 2 ^ (7 * m)" by simp
    then have "length (encodeVarint (drop_bit 7 v)) \<le> m" using m by (intro Suc.IH)
    then show ?thesis by (simp add: encodeVarint_big[OF True])
  qed
qed

lemma length_encodeVarint: "length (encodeVarint v) \<le> 10"
proof -
  have "unat v < 2 ^ 64" using unsigned_less[of v, where 'a = nat] by simp
  also have "(2::nat) ^ 64 \<le> 2 ^ (7 * 10)" by simp
  finally show ?thesis by (intro length_encodeVarint_aux) simp_all
qed

subsection \<open>Fields are read back\<close>

lemma wire_fields_Nil: "wire_fields [] = Some []"
  by (subst wire_fields.simps) simp

lemma wire_fields_scalar:
  assumes "take_bit 3 t = (0::uint64)" "drop_bit 3 t = k"
  shows "wire_fields (encodeVarint t @ encodeVarint v @ rest)
       = (case wire_fields rest of None \<Rightarrow> None | Some fs \<Rightarrow> Some ((k, Varint v) # fs))"
  by (subst wire_fields.simps)
     (simp add: encodeVarint_nonempty decodeVarint_encodeVarint assms split: option.splits)

lemma wire_fields_length_delimited:
  assumes "take_bit 3 t = (2::uint64)" "drop_bit 3 t = k" "length msg < 2 ^ 64"
  shows "wire_fields (encodeVarint t @ encodeVarint (of_nat (length msg)) @ msg @ rest)
       = (case wire_fields rest of None \<Rightarrow> None
          | Some fs \<Rightarrow> Some ((k, LengthDelimited msg) # fs))"
proof -
  have u: "unat (of_nat (length msg) :: uint64) = length msg"
    using assms(3) by (intro of_nat_inverse) simp_all
  show ?thesis
    by (subst wire_fields.simps)
       (simp add: encodeVarint_nonempty decodeVarint_encodeVarint assms(1,2) u split: option.splits)
qed

lemma wire_fields_embedded:
  assumes "take_bit 3 (push_bit 3 k OR 2) = (2::uint64)" "drop_bit 3 (push_bit 3 k OR 2) = k"
    and "length msg < 2 ^ 64"
  shows "wire_fields (embedded k msg @ rest)
       = (case wire_fields rest of None \<Rightarrow> None
          | Some fs \<Rightarrow> Some ((k, LengthDelimited msg) # fs))"
  unfolding embedded_def encodeTag_def append_assoc
  using assms by (rule wire_fields_length_delimited)

lemma wire_fields_embedded_list:
  assumes "take_bit 3 (push_bit 3 k OR 2) = (2::uint64)" "drop_bit 3 (push_bit 3 k OR 2) = k"
    and "\<forall>x \<in> set xs. length (f x) < 2 ^ 64"
  shows "wire_fields (concat (map (\<lambda>x. embedded k (f x)) xs) @ rest)
       = (case wire_fields rest of None \<Rightarrow> None
          | Some fs \<Rightarrow> Some (map (\<lambda>x. (k, LengthDelimited (f x))) xs @ fs))"
  using assms(3)
proof (induction xs)
  case Nil
  then show ?case by (simp split: option.splits)
next
  case (Cons x xs)
  have "wire_fields (embedded k (f x) @ concat (map (\<lambda>x. embedded k (f x)) xs) @ rest)
      = (case wire_fields (concat (map (\<lambda>x. embedded k (f x)) xs) @ rest) of None \<Rightarrow> None
          | Some fs \<Rightarrow> Some ((k, LengthDelimited (f x)) # fs))"
    using assms(1,2) Cons.prems by (intro wire_fields_embedded) simp_all
  then show ?case using Cons by (simp split: option.splits)
qed

lemma wire_fields_scalar_tag:
  assumes "take_bit 3 (push_bit 3 k OR 0) = (0::uint64)" "drop_bit 3 (push_bit 3 k OR 0) = k"
  shows "wire_fields (encodeTag k 0 @ encodeVarint v @ rest)
       = (case wire_fields rest of None \<Rightarrow> None | Some fs \<Rightarrow> Some ((k, Varint v) # fs))"
  unfolding encodeTag_def using assms by (rule wire_fields_scalar)

lemma wire_fields_length_delimited_tag:
  assumes "take_bit 3 (push_bit 3 k OR 2) = (2::uint64)" "drop_bit 3 (push_bit 3 k OR 2) = k"
    and "length msg < 2 ^ 64"
  shows "wire_fields (encodeTag k 2 @ encodeVarint (of_nat (length msg)) @ msg @ rest)
       = (case wire_fields rest of None \<Rightarrow> None
          | Some fs \<Rightarrow> Some ((k, LengthDelimited msg) # fs))"
  unfolding encodeTag_def using assms by (rule wire_fields_length_delimited)

lemma wire_fields_scalar_tag_end:
  assumes "take_bit 3 (push_bit 3 k OR 0) = (0::uint64)" "drop_bit 3 (push_bit 3 k OR 0) = k"
  shows "wire_fields (encodeTag k 0 @ encodeVarint v) = Some [(k, Varint v)]"
  using wire_fields_scalar_tag[OF assms, of v "[]"] by (simp add: wire_fields_Nil)

lemma length_encodeTag: "length (encodeTag k w) \<le> 10"
  by (simp add: encodeTag_def length_encodeVarint)

lemma length_encodeValueType: "length (encodeValueType vt) < 2 ^ 64"
proof -
  have "length (encodeValueType vt) \<le> 40"
    using length_encodeTag[of 1 0] length_encodeTag[of 2 0]
      length_encodeVarint[of "of_nat (vt_Type vt)"] length_encodeVarint[of "of_nat (vt_Unit vt)"]
    by (simp add: encodeValueType_def)
  then show ?thesis by simp
qed

lemma length_encodeLine: "length (encodeLine line) < 2 ^ 64"
proof -
  have "length (encodeLine line) \<le> 40"
    using length_encodeTag[of 1 0] length_encodeTag[of 2 0]
      length_encodeVarint[of "of_nat (FunctionId line)"] length_encodeVarint[of "line_Line line"]
    by (simp add: encodeLine_def Let_def)
  then show ?thesis by simp
qed

lemma length_encodeFunction: "length (encodeFunction fn) < 2 ^ 64"
proof -
  have "length (encodeFunction fn) \<le> 80"
    using length_encodeTag[of 1 0] length_encodeTag[of 2 0] length_encodeTag[of 3 0]
      length_encodeTag[of 4 0]
      length_encodeVarint[of "of_nat (fn_Id fn)"] length_encodeVarint[of "of_nat (fn_Name fn)"]
      length_encodeVarint[of "of_nat (fn_SystemName fn)"]
      length_encodeVarint[of "of_nat (fn_Filename fn)"]
    by (simp add: encodeFunction_def)
  then show ?thesis by simp
qed

lemma fields_encodeValueType:
  "wire_fields (encodeValueType vt @ rest)
     = (case wire_fields rest of None \<Rightarrow> None
        | Some fs \<Rightarrow> Some ((1, Varint (of_nat (vt_Type vt))) # (2, Varint (of_nat (vt_Unit vt))) # fs))"
  by (simp add: encodeValueType_def wire_fields_scalar_tag split: option.splits)

lemma fields_encodeFunction:
  "wire_fields (encodeFunction fn @ rest)
     = (case wire_fields rest of None \<Rightarrow> None
        | Some fs \<Rightarrow> Some ((1, Varint (of_nat (fn_Id fn))) # (2, Varint (of_nat (fn_Name fn))) #
                          (3, Varint (of_nat (fn_SystemName fn))) #
                          (4, Varint (of_nat (fn_Filename fn))) # fs))"
  by (simp add: encodeFunction_def wire_fields_scalar_tag split: option.splits)

lemma fields_encodeLine:
  "wire_fields (encodeLine line @ rest)
     = (case wire_fields rest of None \<Rightarrow> None
        | Some fs \<Rightarrow> Some ((1, Varint (of_nat (FunctionId line))) #
                          (if line_Line line = 0 then [] else [(2, Varint (line_Line line))]) @ fs))"
  by (simp add: encodeLine_def Let_def wire_fields_scalar_tag split: option.splits)

lemma fields_encodeLocation:
  "wire_fields (encodeLocation loc @ rest)
     = (case wire_fields rest of None \<Rightarrow> None
        | Some fs \<Rightarrow> Some ((1, Varint (of_nat (loc_Id loc))) #
                          map (\<lambda>line. (4, LengthDelimited (encodeLine line))) (loc_Line loc) @ fs))"
proof -
  have e: "(\<lambda>line. let msg = encodeLine line
                    in encodeTag 4 2 @ encodeVarint (of_nat (length msg)) @ msg)
         = (\<lambda>line. embedded 4 (encodeLine line))"
    by (simp add: embedded_def Let_def)
  have "wire_fields (concat (map (\<lambda>line. embedded 4 (encodeLine line)) (loc_Line loc)) @ rest)
      = (case wire_fields rest of None \<Rightarrow> None
         | Some fs \<Rightarrow> Some (map (\<lambda>line. (4, LengthDelimited (encodeLine line))) (loc_Line loc) @ fs))"
  proof (rule wire_fields_embedded_list)
    show "\<forall>x \<in> set (loc_Line loc). length (encodeLine x) < 2 ^ 64"
      using length_encodeLine by blast
  qed simp_all
  then show ?thesis
    by (simp add: encodeLocation_def e wire_fields_scalar_tag split: option.splits)
qed

lemma fields_encodeSample:
  assumes "length (encodeSample s) < 2 ^ 64"
  shows "wire_fields (encodeSample s @ rest)
     = (case wire_fields rest of None \<Rightarrow> None
        | Some fs \<Rightarrow> Some (
            (if LocationId s = [] then []
             else [(1, LengthDelimited (concat (map (\<lambda>id. encodeVarint (of_nat id)) (LocationId s))))]) @
            (if Value s = [] then []
             else [(2, LengthDelimited (concat (map encodeVarint (Value s))))]) @ fs))"
proof -
  let ?pl = "concat (map (\<lambda>id. encodeVarint (of_nat id)) (LocationId s))"
  let ?pv = "concat (map encodeVarint (Value s))"
  have l: "LocationId s \<noteq> [] \<Longrightarrow> length ?pl < 2 ^ 64"
    and v: "Value s \<noteq> [] \<Longrightarrow> length ?pv < 2 ^ 64"
    using assms by (auto simp: encodeSample_def Let_def split: if_splits)
  show ?thesis
  proof (cases "LocationId s = []")
    case True
    note L = this
    show ?thesis
    proof (cases "Value s = []")
      case True
      then show ?thesis using L by (simp add: encodeSample_def split: option.splits)
    next
      case False
      then show ?thesis using L v
        by (simp add: encodeSample_def Let_def wire_fields_length_delimited_tag split: option.splits)
    qed
  next
    case False
    note L = this
    show ?thesis
    proof (cases "Value s = []")
      case True
      then show ?thesis using L l
        by (simp add: encodeSample_def Let_def wire_fields_length_delimited_tag split: option.splits)
    next
      case False
      then show ?thesis using L l v
        by (simp add: encodeSample_def Let_def wire_fields_length_delimited_tag split: option.splits)
    qed
  qed
qed

lemma Encode_eq:
  "Encode p =
     concat (map (\<lambda>st. embedded 1 (encodeValueType st)) (SampleType p)) @
     concat (map (\<lambda>s. embedded 2 (encodeSample s)) (Sample p)) @
     concat (map (\<lambda>loc. embedded 4 (encodeLocation loc)) (Location p)) @
     concat (map (\<lambda>fn. embedded 5 (encodeFunction fn)) (Function p)) @
     concat (map (\<lambda>s. embedded 6 (map of_char s)) (StringTable p)) @
     (if TimeNanos p = 0 then [] else encodeTag 9 0 @ encodeVarint (TimeNanos p) @ []) @
     (if DurationNanos p = 0 then [] else encodeTag 10 0 @ encodeVarint (DurationNanos p) @ []) @
     (case PeriodType p of None \<Rightarrow> [] | Some vt \<Rightarrow> embedded 11 (encodeValueType vt) @ []) @
     (if Period p = 0 then [] else encodeTag 12 0 @ encodeVarint (Period p) @ [])"
  by (simp add: Encode_def Let_def split: option.splits)

lemma fields_Encode:
  assumes "lengths_fit p"
  shows "wire_fields (Encode p) = Some (top_fields p)"
proof -
  have s: "\<forall>x \<in> set (Sample p). length (encodeSample x) < 2 ^ 64"
    and l: "\<forall>x \<in> set (Location p). length (encodeLocation x) < 2 ^ 64"
    and t: "\<forall>x \<in> set (StringTable p). length (map of_char x :: byte list) < 2 ^ 64"
    using assms by (simp_all add: lengths_fit_def)
  have f9: "wire_fields ((if TimeNanos p = 0 then [] else encodeTag 9 0 @ encodeVarint (TimeNanos p) @ []) @ rest)
      = (case wire_fields rest of None \<Rightarrow> None
         | Some fs \<Rightarrow> Some ((if TimeNanos p = 0 then [] else [(9, Varint (TimeNanos p))]) @ fs))" for rest
    by (simp add: wire_fields_scalar_tag split: option.splits)
  have f10: "wire_fields ((if DurationNanos p = 0 then [] else encodeTag 10 0 @ encodeVarint (DurationNanos p) @ []) @ rest)
      = (case wire_fields rest of None \<Rightarrow> None
         | Some fs \<Rightarrow> Some ((if DurationNanos p = 0 then [] else [(10, Varint (DurationNanos p))]) @ fs))" for rest
    by (simp add: wire_fields_scalar_tag split: option.splits)
  have f12: "wire_fields (if Period p = 0 then [] else encodeTag 12 0 @ encodeVarint (Period p) @ [])
      = Some (if Period p = 0 then [] else [(12, Varint (Period p))])"
    by (simp add: wire_fields_scalar_tag_end wire_fields_Nil)
  have f11: "wire_fields ((case PeriodType p of None \<Rightarrow> [] | Some vt \<Rightarrow> embedded 11 (encodeValueType vt) @ []) @ rest)
      = (case wire_fields rest of None \<Rightarrow> None
         | Some fs \<Rightarrow> Some ((case PeriodType p of None \<Rightarrow> []
              | Some vt \<Rightarrow> [(11, LengthDelimited (encodeValueType vt))]) @ fs))" for rest
    using length_encodeValueType by (simp add: wire_fields_embedded split: option.splits)
  have f1: "wire_fields (concat (map (\<lambda>st. embedded 1 (encodeValueType st)) (SampleType p)) @ rest)
      = (case wire_fields rest of None \<Rightarrow> None
         | Some fs \<Rightarrow> Some (map (\<lambda>st. (1, LengthDelimited (encodeValueType st))) (SampleType p) @ fs))" for rest
  proof (rule wire_fields_embedded_list)
    show "\<forall>x \<in> set (SampleType p). length (encodeValueType x) < 2 ^ 64"
      using length_encodeValueType by blast
  qed simp_all
  have f2: "wire_fields (concat (map (\<lambda>s. embedded 2 (encodeSample s)) (Sample p)) @ rest)
      = (case wire_fields rest of None \<Rightarrow> None
         | Some fs \<Rightarrow> Some (map (\<lambda>s. (2, LengthDelimited (encodeSample s))) (Sample p) @ fs))" for rest
    using s by (intro wire_fields_embedded_list) simp_all
  have f4: "wire_fields (concat (map (\<lambda>loc. embedded 4 (encodeLocation loc)) (Location p)) @ rest)
      = (case wire_fields rest of None \<Rightarrow> None
         | Some fs \<Rightarrow> Some (map (\<lambda>loc. (4, LengthDelimited (encodeLocation loc))) (Location p) @ fs))" for rest
    using l by (intro wire_fields_embedded_list) simp_all
  have f5: "wire_fields (concat (map (\<lambda>fn. embedded 5 (encodeFunction fn)) (Function p)) @ rest)
      = (case wire_fields rest of None \<Rightarrow> None
         | Some fs \<Rightarrow> Some (map (\<lambda>fn. (5, LengthDelimited (encodeFunction fn))) (Function p) @ fs))" for rest
  proof (rule wire_fields_embedded_list)
    show "\<forall>x \<in> set (Function p). length (encodeFunction x) < 2 ^ 64"
      using length_encodeFunction by blast
  qed simp_all
  have f6: "wire_fields (concat (map (\<lambda>s. embedded 6 (map of_char s)) (StringTable p)) @ rest)
      = (case wire_fields rest of None \<Rightarrow> None
         | Some fs \<Rightarrow> Some (map (\<lambda>s. (6, LengthDelimited (map of_char s))) (StringTable p) @ fs))" for rest
    using t by (intro wire_fields_embedded_list) simp_all
  show ?thesis
    unfolding Encode_eq top_fields_def
    by (simp only: f1 f2 f4 f5 f6 f9 f10 f11 f12 option.case)
qed

subsection \<open>The example profile\<close>

lemma small_profile_encodings:
  "encodeSample \<lparr>LocationId = [1], Value = [3, 0]\<rparr> = [10, 1, 1, 18, 2, 3, 0]"
  "encodeSample \<lparr>LocationId = [], Value = []\<rparr> = []"
  "encodeLocation \<lparr>loc_Id = 1, loc_Line = [\<lparr>FunctionId = 1, line_Line = 0\<rparr>,
                                             \<lparr>FunctionId = 0, line_Line = 7\<rparr>]\<rparr>
     = [8, 1, 34, 2, 8, 1, 34, 4, 8, 0, 16, 7]"
  by code_simp+

lemma small_profile_facts:
  "lengths_fit small_profile"
  "length (encodeSample \<lparr>LocationId = [1], Value = [3, 0]\<rparr>) < 2 ^ 64"
  using small_profile_encodings by (simp_all add: lengths_fit_def small_profile_def)

lemma small_profile_fields:
  "top_fields small_profile
     = [(1, LengthDelimited [8, 1, 16, 2]),
        (2, LengthDelimited [10, 1, 1, 18, 2, 3, 0]), (2, LengthDelimited []),
        (4, LengthDelimited [8, 1, 34, 2, 8, 1, 34, 4, 8, 0, 16, 7]),
        (5, LengthDelimited [8, 1, 16, 3, 24, 3, 32, 0]),
        (6, LengthDelimited []), (6, LengthDelimited [110]),
        (6, LengthDelimited [117]), (6, LengthDelimited [102]),
        (10, Varint 300)]"
  by code_simp

section \<open>Claims about the conversion\<close>

text \<open>
  C1.  Whatever the permutation \<open>sort.Slice\<close> leaves, the order in which the workers'
  samples arrive and the order in which the sample map is read out, the durations
  (\<open>Value[1]\<close>) of the samples of the Profile that \<open>ConvertTrace\<close> returns add up to
  the sum of \<open>int64(duration_us * 1000)\<close> over the input events with phase "X" and a
  duration above zero.  Both sums are \<open>int64\<close> sums, with Go's wrap-around.
\<close>

theorem ConvertTrace_total_duration:
  assumes "runtime_ok rt"
  shows "sum_list (map (\<lambda>s. Value s ! 1) (Sample (ConvertTrace rt traceData opts)))
       = sum_list (map (\<lambda>e. f64_to_int64 rt (f64_mul1000 rt (Dur e)))
           (filter (\<lambda>e. Ph e = ''X'' \<and> 0 < Dur e) (TraceEvents traceData)))"
proof -
  let ?arr = "chan_order rt (workerSamples rt traceData)"
  let ?m = "snd (ConvertTrace_builder rt traceData opts)"
  let ?pb = "fst (ConvertTrace_builder rt traceData opts)"
  have perm: "mset (map_range rt ?m) = mset ?m"
    using assms by (simp add: runtime_ok_def)
  have m: "?m = map (\<lambda>(k, v). (k, stored ?pb v)) (agg ?arr)"
    using ConvertTrace_builder_props[of rt traceData opts] by (simp add: agg_rel_def)
  have "sum_list (map (\<lambda>s. Value s ! 1) (Sample (ConvertTrace rt traceData opts)))
      = sum_list (map (\<lambda>e. sd_timeNs (snd e)) (map_range rt ?m))"
    by (simp add: ConvertTrace_Sample comp_def toSample_def)
  also have "\<dots> = sum_list (map (\<lambda>e. sd_timeNs (snd e)) ?m)"
    using perm by (rule sum_list_map_mset)
  also have "\<dots> = tsum (agg ?arr)"
    by (subst m) (rule tsum_stored)
  also have "\<dots> = sum_list (map ss_timeNs ?arr)"
    by (rule tsum_agg)
  also have "\<dots> = sum_list (map ss_timeNs (concat (workerSamples rt traceData)))"
  proof (rule sum_list_map_mset)
    have "interleaving (workerSamples rt traceData) ?arr"
      using assms by (simp add: runtime_ok_def)
    then show "mset ?arr = mset (concat (workerSamples rt traceData))"
      by (rule interleaving_mset)
  qed
  also have "\<dots> = sum_mset (mset (map ss_timeNs (concat (workerSamples rt traceData))))"
    by (simp only: sum_mset_sum_list)
  also have "\<dots> = sum_mset (image_mset (\<lambda>e. durNs rt (Dur e))
           (mset (filter (\<lambda>e. Ph e = ''X'' \<and> 0 < Dur e) (TraceEvents traceData))))"
    by (simp only: workerSamples_timeNs[OF assms])
  also have "\<dots> = sum_list (map (\<lambda>e. durNs rt (Dur e))
           (filter (\<lambda>e. Ph e = ''X'' \<and> 0 < Dur e) (TraceEvents traceData)))"
    by (rule sum_list_map_image_mset)
  finally show ?thesis by (simp add: durNs_def)
qed

theorem ConvertTrace_total_duration_witness:
  "runtime_ok example_runtime \<and>
   sum_list (map (\<lambda>s. Value s ! 1)
     (Sample (ConvertTrace example_runtime example_trace \<lparr>NumWorkers = 2\<rparr>))) = 100000 \<and>
   sum_list (map (\<lambda>e. f64_to_int64 example_runtime (f64_mul1000 example_runtime (Dur e)))
           (filter (\<lambda>e. Ph e = ''X'' \<and> 0 < Dur e) (TraceEvents example_trace))) = 100000"
  using ConvertTrace_total_duration[OF example_runtime_ok, of example_trace "\<lparr>NumWorkers = 2\<rparr>"]
    example_runtime_ok
  by (simp add: example_profile)






text \<open>
  C7.  Every sample stored in the Profile comes from the first sample that arrived with
  its key: its \<open>LocationId\<close> list is the reverse of that sample's ancestor-first list
  of frames, each frame replaced by the handle of its Location, so that position 0 holds
  the handle of the leaf (the event itself); and every handle names a Location of the
  Profile.  When a sample arrives whose key is in the map, the Builder is left as it is
  (no handle is allocated) and only the count and the duration of the entry change.
\<close>

theorem stored_sample_leaf_first:
  assumes "runtime_ok rt"
  shows "(\<forall>smp \<in> set (Sample (ConvertTrace rt tr opts)).
           \<exists>s. find (\<lambda>s'. sampleKey (ss_stack s') = sampleKey (ss_stack s))
                  (chan_order rt (workerSamples rt tr)) = Some s \<and>
               LocationId smp =
                 rev (map (location_handle (fst (ConvertTrace_builder rt tr opts)))
                        (zip (ss_names s) (ss_cats s))) \<and>
               LocationId smp ! 0 =
                 location_handle (fst (ConvertTrace_builder rt tr opts))
                   (last (ss_names s), last (ss_cats s)) \<and>
               (\<forall>lid \<in> set (LocationId smp).
                  0 < lid \<and> lid \<le> length (Location (ConvertTrace rt tr opts)) \<and>
                  loc_Id (Location (ConvertTrace rt tr opts) ! (lid - 1)) = lid)) \<and>
         (\<forall>pb m s ex. map_of m (sampleKey (ss_stack s)) = Some ex \<longrightarrow>
            aggregate (pb, m) s =
              (pb, AList.update (sampleKey (ss_stack s))
                     (ex\<lparr>sd_count := sd_count ex + 1,
                        sd_timeNs := sd_timeNs ex + ss_timeNs s\<rparr>) m))"
proof (intro conjI ballI allI impI)
  fix smp assume smp: "smp \<in> set (Sample (ConvertTrace rt tr opts))"
  let ?pb = "fst (ConvertTrace_builder rt tr opts)"
  obtain s st e where s: "find (\<lambda>s'. key_of s' = key_of s) (chan_order rt (workerSamples rt tr)) = Some s"
    "s = emit rt st e"
    "LocationId smp = rev (map (location_handle ?pb) (frames s))"
    "\<forall>fr \<in> set (frames s). resolved ?pb fr"
    using stored_sample_origin[OF assms smp] by blast
  have inv: "builder_inv ?pb" using ConvertTrace_builder_props[of rt tr opts] by simp
  have fr: "frames s = map (\<lambda>s. (se_name s, se_cat s)) st @ [(Name e, Cat e)]"
    by (simp add: s(2) frames_emit)
  have l: "last (ss_names s) = Name e" "last (ss_cats s) = Cat e"
    by (simp_all add: s(2) emit_def)
  have zero: "LocationId smp ! 0 = location_handle ?pb (last (ss_names s), last (ss_cats s))"
    by (simp add: s(3) fr l)
  have range: "\<forall>lid \<in> set (LocationId smp).
                  0 < lid \<and> lid \<le> length (Location (ConvertTrace rt tr opts)) \<and>
                  loc_Id (Location (ConvertTrace rt tr opts) ! (lid - 1)) = lid"
    unfolding ConvertTrace_Location s(3)
    using resolved_in_range[OF inv] s(4) by auto
  show "\<exists>s. find (\<lambda>s'. sampleKey (ss_stack s') = sampleKey (ss_stack s))
                  (chan_order rt (workerSamples rt tr)) = Some s \<and>
               LocationId smp =
                 rev (map (location_handle (fst (ConvertTrace_builder rt tr opts)))
                        (zip (ss_names s) (ss_cats s))) \<and>
               LocationId smp ! 0 =
                 location_handle (fst (ConvertTrace_builder rt tr opts))
                   (last (ss_names s), last (ss_cats s)) \<and>
               (\<forall>lid \<in> set (LocationId smp).
                  0 < lid \<and> lid \<le> length (Location (ConvertTrace rt tr opts)) \<and>
                  loc_Id (Location (ConvertTrace rt tr opts) ! (lid - 1)) = lid)"
    using s(1,3) zero range unfolding key_of_def frames_def by blast
next
  fix pb :: Builder and m :: "(string \<times> sampleData) list" and s :: stackSample and ex
  assume "map_of m (sampleKey (ss_stack s)) = Some ex"
  then show "aggregate (pb, m) s =
              (pb, AList.update (sampleKey (ss_stack s))
                     (ex\<lparr>sd_count := sd_count ex + 1,
                        sd_timeNs := sd_timeNs ex + ss_timeNs s\<rparr>) m)"
    by (rule aggregate_repeat)
qed

lemma repeat_trace_profile:
  "Sample (ConvertTrace example_runtime repeat_trace \<lparr>NumWorkers = 1\<rparr>)
     = [\<lparr>LocationId = [1], Value = [1, 100000]\<rparr>, \<lparr>LocationId = [2, 1], Value = [2, 50000]\<rparr>]"
  "location_handle (fst (ConvertTrace_builder example_runtime repeat_trace \<lparr>NumWorkers = 1\<rparr>))
     (''A'', ''cpu_op'') = 1"
  "location_handle (fst (ConvertTrace_builder example_runtime repeat_trace \<lparr>NumWorkers = 1\<rparr>))
     (''B'', ''kernel'') = 2"
  "Location (ConvertTrace example_runtime repeat_trace \<lparr>NumWorkers = 1\<rparr>)
     = [\<lparr>loc_Id = 1, loc_Line = [\<lparr>FunctionId = 1, line_Line = 0\<rparr>]\<rparr>,
        \<lparr>loc_Id = 2, loc_Line = [\<lparr>FunctionId = 2, line_Line = 0\<rparr>]\<rparr>]"
  by code_simp+

theorem stored_sample_leaf_first_witness:
  "runtime_ok example_runtime \<and>
   Sample (ConvertTrace example_runtime repeat_trace \<lparr>NumWorkers = 1\<rparr>)
     = [\<lparr>LocationId = [1], Value = [1, 100000]\<rparr>, \<lparr>LocationId = [2, 1], Value = [2, 50000]\<rparr>] \<and>
   rev (map (location_handle (fst (ConvertTrace_builder example_runtime repeat_trace \<lparr>NumWorkers = 1\<rparr>)))
     [(''A'', ''cpu_op''), (''B'', ''kernel'')]) = [2, 1] \<and>
   length (Location (ConvertTrace example_runtime repeat_trace \<lparr>NumWorkers = 1\<rparr>)) = 2"
  using stored_sample_leaf_first[OF example_runtime_ok, of repeat_trace "\<lparr>NumWorkers = 1\<rparr>"]
    example_runtime_ok
  by (simp add: repeat_trace_profile)

text \<open>
  C4.  Two samples are merged exactly when their stacks of (name, category) pairs are
  the same, whatever characters the names and categories hold.  The code merges the
  samples that have the same key string, and the key is a concatenation that does not
  escape its separators.  In \<open>collision_trace\<close> the second and the fourth sample have
  different stacks and the same key: the Profile holds three samples, and the sample
  of the stack \<open>step\<close>, \<open>op\<close> has count 2 and the duration of both.
\<close>

theorem colliding_stacks_are_merged:
  "map (\<lambda>s. zip (ss_names s) (ss_cats s)) (concat (workerSamples example_runtime collision_trace))
     = [[(''step'', ''user;forward'')],
        [(''step'', ''user;forward''), (''op'', ''cpu'')],
        [(''step'', ''user'')],
        [(''step'', ''user''), (''forward;op'', ''cpu'')]] \<and>
   sampleKey (ss_stack (concat (workerSamples example_runtime collision_trace) ! 1))
     = sampleKey (ss_stack (concat (workerSamples example_runtime collision_trace) ! 3)) \<and>
   Sample (ConvertTrace example_runtime collision_trace \<lparr>NumWorkers = 1\<rparr>)
     = [\<lparr>LocationId = [1], Value = [1, 100000]\<rparr>,
        \<lparr>LocationId = [2, 1], Value = [2, 20000]\<rparr>,
        \<lparr>LocationId = [3], Value = [1, 100000]\<rparr>] \<and>
   map (\<lambda>s. (map (frame_of (ConvertTrace example_runtime collision_trace \<lparr>NumWorkers = 1\<rparr>))
                  (LocationId s), Value s))
       (Sample (ConvertTrace example_runtime collision_trace \<lparr>NumWorkers = 1\<rparr>))
     = [([(''step'', ''user;forward'')], [1, 100000]),
        ([(''op'', ''cpu''), (''step'', ''user;forward'')], [2, 20000]),
        ([(''step'', ''user'')], [1, 100000])]"
  by code_simp

text \<open>
  C2.  The Profile of a conversion holds exactly one Function and exactly one Location
  for every (name, category) pair that events of the trace carry.  In
  \<open>collision_trace\<close> the event \<open>forward;op\<close> of category \<open>cpu\<close> is kept, and its
  sample is merged into the sample of another stack before its Location is asked for:
  the Profile has no Function and no Location for the pair.
\<close>

theorem colliding_frame_gets_no_function:
  "map (\<lambda>e. (Name e, Cat e)) (filter kept (TraceEvents collision_trace))
     = [(''step'', ''user;forward''), (''op'', ''cpu''), (''step'', ''user''),
        (''forward;op'', ''cpu'')] \<and>
   map (\<lambda>f. (StringTable (ConvertTrace example_runtime collision_trace \<lparr>NumWorkers = 1\<rparr>) ! fn_Name f,
             StringTable (ConvertTrace example_runtime collision_trace \<lparr>NumWorkers = 1\<rparr>) ! fn_Filename f))
       (Function (ConvertTrace example_runtime collision_trace \<lparr>NumWorkers = 1\<rparr>))
     = [(''step'', ''user;forward''), (''op'', ''cpu''), (''step'', ''user'')] \<and>
   functions_for (ConvertTrace example_runtime collision_trace \<lparr>NumWorkers = 1\<rparr>)
     ''forward;op'' ''cpu'' = [] \<and>
   locations_for (ConvertTrace example_runtime collision_trace \<lparr>NumWorkers = 1\<rparr>)
     ''forward;op'' ''cpu'' = []"
  by code_simp

text \<open>
  C8 (as amended).  In the bytes that \<open>Encode\<close> gives for a profile, the scalar fields
  of the profile itself (time, duration, period) and the line number of a Line are left
  out when they are zero and written when they are not; an absent period type and an
  empty location-id or value list of a Sample are left out as well.  The integer fields
  of a ValueType, a Function and a Location and the function id of a Line are written
  whatever their value, also when it is zero.  Read back, the encoding of a profile and
  of each nested message holds exactly these fields, in this order.
\<close>

theorem zero_scalars_in_encoding:
  assumes "lengths_fit p" and "length (encodeSample s) < 2 ^ 64"
  shows "wire_fields (Encode p) = Some (top_fields p) \<and>
         wire_fields (encodeValueType vt)
           = Some [(1, Varint (of_nat (vt_Type vt))), (2, Varint (of_nat (vt_Unit vt)))] \<and>
         wire_fields (encodeFunction fn)
           = Some [(1, Varint (of_nat (fn_Id fn))), (2, Varint (of_nat (fn_Name fn))),
                   (3, Varint (of_nat (fn_SystemName fn))),
                   (4, Varint (of_nat (fn_Filename fn)))] \<and>
         wire_fields (encodeLocation loc)
           = Some ((1, Varint (of_nat (loc_Id loc))) #
                   map (\<lambda>line. (4, LengthDelimited (encodeLine line))) (loc_Line loc)) \<and>
         wire_fields (encodeLine line)
           = Some ((1, Varint (of_nat (FunctionId line))) #
                   (if line_Line line = 0 then [] else [(2, Varint (line_Line line))])) \<and>
         wire_fields (encodeSample s)
           = Some ((if LocationId s = [] then []
                    else [(1, LengthDelimited
                             (concat (map (\<lambda>id. encodeVarint (of_nat id)) (LocationId s))))]) @
                   (if Value s = [] then []
                    else [(2, LengthDelimited (concat (map encodeVarint (Value s))))]))"
proof -
  have "wire_fields (Encode p) = Some (top_fields p)" using assms(1) by (rule fields_Encode)
  moreover have "wire_fields (encodeValueType vt)
           = Some [(1, Varint (of_nat (vt_Type vt))), (2, Varint (of_nat (vt_Unit vt)))]"
    using fields_encodeValueType[of vt "[]"] by (simp add: wire_fields_Nil)
  moreover have "wire_fields (encodeFunction fn)
           = Some [(1, Varint (of_nat (fn_Id fn))), (2, Varint (of_nat (fn_Name fn))),
                   (3, Varint (of_nat (fn_SystemName fn))),
                   (4, Varint (of_nat (fn_Filename fn)))]"
    using fields_encodeFunction[of fn "[]"] by (simp add: wire_fields_Nil)
  moreover have "wire_fields (encodeLocation loc)
           = Some ((1, Varint (of_nat (loc_Id loc))) #
                   map (\<lambda>line. (4, LengthDelimited (encodeLine line))) (loc_Line loc))"
    using fields_encodeLocation[of loc "[]"] by (simp add: wire_fields_Nil)
  moreover have "wire_fields (encodeLine line)
           = Some ((1, Varint (of_nat (FunctionId line))) #
                   (if line_Line line = 0 then [] else [(2, Varint (line_Line line))]))"
    using fields_encodeLine[of line "[]"] by (simp add: wire_fields_Nil)
  moreover have "wire_fields (encodeSample s)
           = Some ((if LocationId s = [] then []
                    else [(1, LengthDelimited
                             (concat (map (\<lambda>id. encodeVarint (of_nat id)) (LocationId s))))]) @
                   (if Value s = [] then []
                    else [(2, LengthDelimited (concat (map encodeVarint (Value s))))]))"
    using fields_encodeSample[OF assms(2), of "[]"] by (simp add: wire_fields_Nil)
  ultimately show ?thesis by (intro conjI)
qed

theorem zero_scalars_in_encoding_witness:
  "lengths_fit small_profile \<and>
   wire_fields (Encode small_profile)
     = Some [(1, LengthDelimited [8, 1, 16, 2]),
        (2, LengthDelimited [10, 1, 1, 18, 2, 3, 0]), (2, LengthDelimited []),
        (4, LengthDelimited [8, 1, 34, 2, 8, 1, 34, 4, 8, 0, 16, 7]),
        (5, LengthDelimited [8, 1, 16, 3, 24, 3, 32, 0]),
        (6, LengthDelimited []), (6, LengthDelimited [110]),
        (6, LengthDelimited [117]), (6, LengthDelimited [102]),
        (10, Varint 300)]"
  using zero_scalars_in_encoding[OF small_profile_facts(1,2)] small_profile_facts(1)
  by (simp add: small_profile_fields)

text \<open>
  As stated for every integer field the claim fails: the event of \<open>nameless_trace\<close>
  has the empty name and category, its Function has the handle 0 as name, system name
  and file name, and the three fields are in the encoding, with the value 0.
\<close>

theorem zero_name_is_encoded_counterexample:
  "Function (ConvertTrace example_runtime nameless_trace \<lparr>NumWorkers = 1\<rparr>)
     = [\<lparr>fn_Id = 1, fn_Name = 0, fn_SystemName = 0, fn_Filename = 0\<rparr>] \<and>
   encodeFunction \<lparr>fn_Id = 1, fn_Name = 0, fn_SystemName = 0, fn_Filename = 0\<rparr>
     = [8, 1, 16, 0, 24, 0, 32, 0] \<and>
   wire_fields [8, 1, 16, 0, 24, 0, 32, 0]
     = Some [(1, Varint 1), (2, Varint 0), (3, Varint 0), (4, Varint 0)] \<and>
   wire_fields (Encode (ConvertTrace example_runtime nameless_trace \<lparr>NumWorkers = 1\<rparr>))
     = Some [(1, LengthDelimited [8, 1, 16, 2]), (1, LengthDelimited [8, 3, 16, 4]),
        (2, LengthDelimited [10, 1, 1, 18, 3, 1, 136, 39]),
        (4, LengthDelimited [8, 1, 34, 2, 8, 1]),
        (5, LengthDelimited [8, 1, 16, 0, 24, 0, 32, 0]),
        (6, LengthDelimited []),
        (6, LengthDelimited [115, 97, 109, 112, 108, 101, 115]),
        (6, LengthDelimited [99, 111, 117, 110, 116]),
        (6, LengthDelimited [116, 105, 109, 101]),
        (6, LengthDelimited [110, 97, 110, 111, 115, 101, 99, 111, 110, 100, 115]),
        (6, LengthDelimited [99, 112, 117]), (11, LengthDelimited [8, 5, 16, 4]),
        (12, Varint 1000000)]"
  by code_simp




end
